theory Spec2Isabelle
  imports Main "HOL-Library.Word"
begin

unbundle bit_operations_syntax

section \<open>The golden rasterizer model (gold/rasterizer.c)\<close>

text \<open>
  The C source works on \<^verbatim>\<open>int\<close> coordinates, on one unsigned 32-bit mask, on
  64-bit \<^verbatim>\<open>long\<close> words and on bytes.  The embedding keeps that split:

  \<^item> a C \<^verbatim>\<open>int\<close> is a HOL \<open>int\<close>, and the 32-bit wrap-around is written out: every
    sum, difference, product and left shift that the code computes in \<^verbatim>\<open>int\<close> goes
    through \<open>wrap32\<close>, the reduction modulo \<open>2^32\<close> into \<open>[-2^31, 2^31)\<close>.  (The C standard
    leaves signed overflow undefined; wrapping is what the plain build of the code does.)
    \<^verbatim>\<open>&\<close> and \<^verbatim>\<open>>>\<close> on \<open>int\<close> cannot leave the range and are the two's-complement
    operations \<open>AND\<close> and \<open>drop_bit\<close> (arithmetic shift);
  \<^item> the literal \<^verbatim>\<open>0xFFFFFFFF\<close> is an \<^verbatim>\<open>unsigned int\<close>: its shift wraps modulo \<open>2^32\<close>
    and is computed on \<open>32 word\<close>, then read back as a signed value by \<open>sint\<close>;
  \<^item> \<^verbatim>\<open>long\<close> is \<open>64 word\<close>, \<^verbatim>\<open>uchar\<close> is \<open>8 word\<close>, \<^verbatim>\<open>ushort\<close> is \<open>16 word\<close>;
  \<^item> a shift count is converted by \<open>nat\<close>; C leaves negative and over-wide counts
    undefined, and the theorems below whose result depends on a shifted value state the
    range of counts they are about;
  \<^item> the two stores through \<^verbatim>\<open>long *\<close> in \<^verbatim>\<open>jitter_sample\<close> write eight bytes into arrays
    of five.  They are stores into a byte-addressed memory, and where the two arrays lie
    and what the bytes behind them hold is a parameter of the model, the \<open>frame\<close>;
  \<^item> the nested loop is a transition system on its control points, so that a run that
    never returns still has its states, and the calls made so far, to speak about.

  The header \<^verbatim>\<open>rasterizer.h\<close> is not part of the sources at hand.  The records below
  follow the uses of the fields in \<^verbatim>\<open>rasterizer.c\<close>; the depth and colour fields are
  only ever copied, and are taken to be integers.  The fields of a record carry the
  initial of the record (\<open>s_x\<close> for \<^verbatim>\<open>sample.x\<close>, \<open>v_x\<close> for \<^verbatim>\<open>triangle.v[i].x\<close>,
  \<open>f_z\<close> for \<^verbatim>\<open>f.z\<close>), since the fields of HOL records share one name space.
\<close>

subsection \<open>Data\<close>

record Sample =
  s_x :: int
  s_y :: int

record Vertex =
  v_x :: int
  v_y :: int
  v_z :: int
  v_R :: int
  v_G :: int
  v_B :: int

text \<open>\<^verbatim>\<open>triangle.v[0]\<close>, \<^verbatim>\<open>triangle.v[1]\<close>, \<^verbatim>\<open>triangle.v[2]\<close>: an array of exactly three vertices.\<close>

record Triangle =
  v0 :: Vertex
  v1 :: Vertex
  v2 :: Vertex

record Screen =
  width :: int
  height :: int

record Config =
  r_shift :: int
  ss_w_lg2 :: int
  ss_i :: int

record BoundingBox =
  lower_left :: Sample
  upper_right :: Sample
  valid :: bool

record Fragment =
  f_z :: int
  f_R :: int
  f_G :: int
  f_B :: int

subsection \<open>Utility functions\<close>

definition min_c :: "int \<Rightarrow> int \<Rightarrow> int" where
  "min_c a b = (if a \<ge> b then b else a)"

definition max_c :: "int \<Rightarrow> int \<Rightarrow> int" where
  "max_c a b = (if a \<ge> b then a else b)"

definition floor_ss :: "int \<Rightarrow> int \<Rightarrow> int \<Rightarrow> int" where
  "floor_ss val rs ssw =
     (let mask = sint (push_bit (nat (rs - ssw)) (0xFFFFFFFF :: 32 word))
      in val AND mask)"

subsection \<open>Bounding box\<close>

text \<open>One round of the loop over the vertices \<open>1\<close> and \<open>2\<close>.\<close>

definition bbox_update :: "BoundingBox \<Rightarrow> Vertex \<Rightarrow> BoundingBox" where
  "bbox_update bbox vtx =
     bbox\<lparr>lower_left := \<lparr>s_x = min_c (s_x (lower_left bbox)) (v_x vtx),
                          s_y = min_c (s_y (lower_left bbox)) (v_y vtx)\<rparr>,
          upper_right := \<lparr>s_x = max_c (s_x (upper_right bbox)) (v_x vtx),
                           s_y = max_c (s_y (upper_right bbox)) (v_y vtx)\<rparr>\<rparr>"

text \<open>The box after the rounding to the subsample grid, before it is clipped.\<close>

definition snapped_box :: "Triangle \<Rightarrow> Config \<Rightarrow> BoundingBox" where
  "snapped_box triangle config =
     (let bbox = \<lparr>lower_left = \<lparr>s_x = v_x (v0 triangle), s_y = v_y (v0 triangle)\<rparr>,
                  upper_right = \<lparr>s_x = v_x (v0 triangle), s_y = v_y (v0 triangle)\<rparr>,
                  valid = True\<rparr>;
          bbox = foldl bbox_update bbox [v1 triangle, v2 triangle]
      in bbox\<lparr>lower_left :=
                 \<lparr>s_x = floor_ss (s_x (lower_left bbox)) (r_shift config) (ss_w_lg2 config),
                  s_y = floor_ss (s_y (lower_left bbox)) (r_shift config) (ss_w_lg2 config)\<rparr>,
              upper_right :=
                 \<lparr>s_x = floor_ss (s_x (upper_right bbox)) (r_shift config) (ss_w_lg2 config),
                  s_y = floor_ss (s_y (upper_right bbox)) (r_shift config) (ss_w_lg2 config)\<rparr>\<rparr>)"

definition get_bounding_box :: "Triangle \<Rightarrow> Screen \<Rightarrow> Config \<Rightarrow> BoundingBox" where
  "get_bounding_box triangle screen config =
     (let bbox = snapped_box triangle config;
          bbox = bbox\<lparr>lower_left := \<lparr>s_x = max_c (s_x (lower_left bbox)) 0,
                                      s_y = max_c (s_y (lower_left bbox)) 0\<rparr>,
                      upper_right := \<lparr>s_x = min_c (s_x (upper_right bbox)) (width screen),
                                       s_y = min_c (s_y (upper_right bbox)) (height screen)\<rparr>\<rparr>
      in if s_x (upper_right bbox) < 0 \<or> s_y (upper_right bbox) < 0 \<or>
            s_x (lower_left bbox) > width screen \<or> s_y (lower_left bbox) > height screen
         then bbox\<lparr>valid := False\<rparr>
         else bbox)"

subsection \<open>32-bit arithmetic\<close>

text \<open>
  The values of a C \<^verbatim>\<open>int\<close>, and the value that is stored when a result computed in
  \<^verbatim>\<open>int\<close> leaves that range.
\<close>

definition c_int :: "int \<Rightarrow> bool" where
  "c_int x \<longleftrightarrow> - (2 ^ 31) \<le> x \<and> x < 2 ^ 31"

definition wrap32 :: "int \<Rightarrow> int" where
  "wrap32 x = (x + 2 ^ 31) mod 2 ^ 32 - 2 ^ 31"

subsection \<open>Coverage test\<close>

definition sample_test :: "Triangle \<Rightarrow> Sample \<Rightarrow> bool" where
  "sample_test triangle sample =
     (let v0_x = wrap32 (v_x (v0 triangle) - s_x sample);
          v0_y = wrap32 (v_y (v0 triangle) - s_y sample);
          v1_x = wrap32 (v_x (v1 triangle) - s_x sample);
          v1_y = wrap32 (v_y (v1 triangle) - s_y sample);
          v2_x = wrap32 (v_x (v2 triangle) - s_x sample);
          v2_y = wrap32 (v_y (v2 triangle) - s_y sample);
          b0 = (wrap32 (wrap32 (v0_x * v1_y) - wrap32 (v1_x * v0_y)) \<le> 0);
          b1 = (wrap32 (wrap32 (v1_x * v2_y) - wrap32 (v2_x * v1_y)) < 0);
          b2 = (wrap32 (wrap32 (v2_x * v0_y) - wrap32 (v0_x * v2_y)) \<le> 0)
      in b0 \<and> b1 \<and> b2)"

subsection \<open>Jitter hash\<close>

text \<open>
  \<^verbatim>\<open>hash_40to8\<close> reads five bytes \<^verbatim>\<open>arr40[0..4]\<close> and writes \<^verbatim>\<open>val[0]\<close>; the model takes
  the five bytes as a list and returns the value written.
\<close>

definition hash_40to8 :: "8 word list \<Rightarrow> int \<Rightarrow> 16 word" where
  "hash_40to8 arr40 shift =
     (let mask = drop_bit (nat shift) (0x00ff :: 16 word);
          arr32_0 = arr40 ! 0 XOR arr40 ! 1;
          arr32_1 = arr40 ! 1 XOR arr40 ! 2;
          arr32_2 = arr40 ! 2 XOR arr40 ! 3;
          arr32_3 = arr40 ! 3 XOR arr40 ! 4;
          arr16_0 = arr32_0 XOR arr32_2;
          arr16_1 = arr32_1 XOR arr32_3;
          arr8 = arr16_0 XOR arr16_1
      in ucast arr8 AND mask)"

text \<open>
  \<^verbatim>\<open>jitter_sample\<close> declares \<^verbatim>\<open>uchar arr40_1[5]\<close> and \<^verbatim>\<open>uchar arr40_2[5]\<close> and stores a
  \<^verbatim>\<open>long\<close> into each through a \<^verbatim>\<open>long *\<close>: eight bytes, on the little-endian 64-bit
  machine the model was written for, of which three land behind the array.  The source
  does not say where the arrays lie.  The frame says it: the addresses of the two
  arrays, which addresses hold something that the run cannot lose (a saved register,
  the return address, a variable of the caller), and the bytes found in the memory
  at entry.
\<close>

type_synonym memory = "int \<Rightarrow> 8 word"

record frame =
  arr40_1_at :: int
  arr40_2_at :: int
  vital :: "int \<Rightarrow> bool"
  initial_bytes :: memory

text \<open>\<^verbatim>\<open>*(long *)a = w\<close>: byte \<open>i\<close> of the eight bytes from \<open>a\<close> on is bits \<open>8 i .. 8 i + 7\<close> of \<open>w\<close>.\<close>

definition store_long :: "memory \<Rightarrow> int \<Rightarrow> 64 word \<Rightarrow> memory" where
  "store_long m a w =
     (\<lambda>b. if a \<le> b \<and> b < a + 8 then ucast (drop_bit (8 * nat (b - a)) w) else m b)"

text \<open>The five bytes \<^verbatim>\<open>arr40[0..4]\<close> of an array at the address \<open>a\<close>.\<close>

definition load_arr40 :: "memory \<Rightarrow> int \<Rightarrow> 8 word list" where
  "load_arr40 m a = map (\<lambda>i. m (a + int i)) [0..<5]"

text \<open>The addresses behind the two arrays that the two stores write to.\<close>

definition overrun :: "frame \<Rightarrow> int list" where
  "overrun fr =
     [arr40_1_at fr + 5, arr40_1_at fr + 6, arr40_1_at fr + 7,
      arr40_2_at fr + 5, arr40_2_at fr + 6, arr40_2_at fr + 7]"

text \<open>
  The call.  When a store overwrites a vital byte the source says nothing about what
  happens next, and the model gives the run up: \<open>None\<close>.  Otherwise the hash reads what the
  two stores have left in the two arrays.
\<close>

definition jitter_sample :: "frame \<Rightarrow> Sample \<Rightarrow> int \<Rightarrow> Sample option" where
  "jitter_sample fr sample ssw =
     (let x = (word_of_int (drop_bit 4 (s_x sample)) :: 64 word);
          y = (word_of_int (drop_bit 4 (s_y sample)) :: 64 word);
          m = store_long (initial_bytes fr) (arr40_1_at fr) (push_bit 20 y OR x);
          m = store_long m (arr40_2_at fr) (push_bit 20 x OR y)
      in if list_ex (vital fr) (overrun fr) then None
         else
           (let val_x = hash_40to8 (load_arr40 m (arr40_1_at fr)) ssw;
                val_y = hash_40to8 (load_arr40 m (arr40_2_at fr)) ssw
            in Some \<lparr>s_x = uint val_x, s_y = uint val_y\<rparr>))"

subsection \<open>The rasterization loop\<close>

text \<open>
  \<^verbatim>\<open>process_fragment\<close> belongs to the buffer collaborator and is only declared for this
  file.  Its calls are what the rasterizer does to the outside, so the state of the loop
  holds, next to the hit count, the list of calls made so far, in order.
\<close>

record pf_call =
  hit_location :: Sample
  subsample :: Sample
  fragment :: Fragment

record rast_state =
  hit_count :: int
  calls :: "pf_call list"

text \<open>C's \<^verbatim>\<open>/\<close> on \<^verbatim>\<open>int\<close> truncates towards zero.\<close>

definition c_div :: "int \<Rightarrow> int \<Rightarrow> int" where
  "c_div a b = sgn a * sgn b * (\<bar>a\<bar> div \<bar>b\<bar>)"

text \<open>
  The body of the inner loop, lines 128 to 157.  The buffer pointer \<open>z\<close> is only compared
  with \<^verbatim>\<open>NULL\<close> and handed on, so it is an option over an arbitrary type.  The division
  by \<^verbatim>\<open>config.ss_i\<close> traps when the stride is \<open>0\<close>: that run does not return.
\<close>

definition sample_body ::
  "frame \<Rightarrow> Triangle \<Rightarrow> 'z option \<Rightarrow> Config \<Rightarrow> Sample \<Rightarrow> rast_state \<Rightarrow> rast_state option" where
  "sample_body fr triangle z config sample st =
     Option.bind (jitter_sample fr sample (ss_w_lg2 config))
       (\<lambda>jitter.
          let jitter = \<lparr>s_x = wrap32 (push_bit 2 (s_x jitter)),
                        s_y = wrap32 (push_bit 2 (s_y jitter))\<rparr>;
              jittered_sample = \<lparr>s_x = wrap32 (s_x sample + s_x jitter),
                                 s_y = wrap32 (s_y sample + s_y jitter)\<rparr>;
              hit = sample_test triangle jittered_sample
          in if hit then
               (let st = st\<lparr>hit_count := wrap32 (hit_count st + 1)\<rparr>
                in if z \<noteq> None then
                     (let hl = \<lparr>s_x = drop_bit (nat (r_shift config)) (s_x sample),
                                s_y = drop_bit (nat (r_shift config)) (s_y sample)\<rparr>
                      in if ss_i config = 0 then None
                         else
                           (let ss =
                                  \<lparr>s_x = wrap32 (c_div
                                             (wrap32 (s_x sample -
                                                wrap32 (push_bit (nat (r_shift config)) (s_x hl))))
                                             (ss_i config)),
                                   s_y = wrap32 (c_div
                                             (wrap32 (s_y sample -
                                                wrap32 (push_bit (nat (r_shift config)) (s_y hl))))
                                             (ss_i config))\<rparr>;
                                f = \<lparr>f_z = v_z (v0 triangle), f_R = v_R (v0 triangle),
                                     f_G = v_G (v0 triangle), f_B = v_B (v0 triangle)\<rparr>
                            in Some (st\<lparr>calls := calls st @
                                       [\<lparr>hit_location = hl, subsample = ss, fragment = f\<rparr>]\<rparr>)))
                   else Some st)
             else Some st)"

text \<open>
  The nested loop, lines 126 and 127, as a transition system.  A state is at the test
  of the outer loop, at the test of the inner loop, or behind the loops; it holds the two
  counters \<^verbatim>\<open>sample.x\<close> and \<^verbatim>\<open>sample.y\<close> and what the run has counted and delivered.  One
  step makes one test and what follows it: entering the inner loop with
  \<^verbatim>\<open>sample.y = bbox.lower_left.y\<close>, the body and \<^verbatim>\<open>sample.y += config.ss_i\<close>, or
  \<^verbatim>\<open>sample.x += config.ss_i\<close> after the inner loop.  The counters are \<^verbatim>\<open>int\<close>s: they wrap.
\<close>

datatype ctl = Outer_test | Inner_test | Returned

record loop_state =
  l_ctl :: ctl
  l_sample :: Sample
  l_acc :: rast_state

definition loop_step ::
  "frame \<Rightarrow> Triangle \<Rightarrow> 'z option \<Rightarrow> Config \<Rightarrow> BoundingBox \<Rightarrow> loop_state \<Rightarrow> loop_state option" where
  "loop_step fr triangle z config bbox ls =
     (case l_ctl ls of
        Outer_test \<Rightarrow>
          if s_x (l_sample ls) \<le> s_x (upper_right bbox)
          then Some (ls\<lparr>l_ctl := Inner_test,
                        l_sample := (l_sample ls)\<lparr>s_y := s_y (lower_left bbox)\<rparr>\<rparr>)
          else Some (ls\<lparr>l_ctl := Returned\<rparr>)
      | Inner_test \<Rightarrow>
          if s_y (l_sample ls) \<le> s_y (upper_right bbox)
          then Option.bind (sample_body fr triangle z config (l_sample ls) (l_acc ls))
                 (\<lambda>st. Some (ls\<lparr>l_sample :=
                                  (l_sample ls)\<lparr>s_y := wrap32 (s_y (l_sample ls) + ss_i config)\<rparr>,
                                l_acc := st\<rparr>))
          else Some (ls\<lparr>l_ctl := Outer_test,
                        l_sample :=
                          (l_sample ls)\<lparr>s_x := wrap32 (s_x (l_sample ls) + ss_i config)\<rparr>\<rparr>)
      | Returned \<Rightarrow> Some ls)"

text \<open>
  The run from a state on: steps until the loops are left.  It need not get there, and
  \<open>None\<close> stands for a run that does not return.
\<close>

partial_function (option) loop_run ::
  "frame \<Rightarrow> Triangle \<Rightarrow> 'z option \<Rightarrow> Config \<Rightarrow> BoundingBox \<Rightarrow> loop_state \<Rightarrow> rast_state option" where
  "loop_run fr triangle z config bbox ls =
     (if l_ctl ls = Returned then Some (l_acc ls)
      else Option.bind (loop_step fr triangle z config bbox ls) (loop_run fr triangle z config bbox))"

text \<open>The state after \<open>n\<close> steps, if the run gets that far.\<close>

primrec loop_steps ::
  "frame \<Rightarrow> Triangle \<Rightarrow> 'z option \<Rightarrow> Config \<Rightarrow> BoundingBox \<Rightarrow> nat \<Rightarrow> loop_state \<Rightarrow> loop_state option" where
  "loop_steps fr triangle z config bbox 0 ls = Some ls"
| "loop_steps fr triangle z config bbox (Suc n) ls =
     Option.bind (loop_steps fr triangle z config bbox n ls) (loop_step fr triangle z config bbox)"

text \<open>
  The state in which the loops are entered: \<^verbatim>\<open>hit_count = 0\<close>, no call made,
  \<^verbatim>\<open>sample.x = bbox.lower_left.x\<close>.  (\<^verbatim>\<open>sample.y\<close> is not read before the inner loop sets it.)
\<close>

definition entry :: "BoundingBox \<Rightarrow> loop_state" where
  "entry bbox =
     \<lparr>l_ctl = Outer_test, l_sample = \<lparr>s_x = s_x (lower_left bbox), s_y = 0\<rparr>,
      l_acc = \<lparr>hit_count = 0, calls = []\<rparr>\<rparr>"

text \<open>
  \<^verbatim>\<open>rasterize_triangle\<close>: the final hit count and calls of the run, the value it returns,
  and the state it is in after \<open>n\<close> steps.
\<close>

definition rasterize_run ::
  "frame \<Rightarrow> Triangle \<Rightarrow> 'z option \<Rightarrow> Screen \<Rightarrow> Config \<Rightarrow> rast_state option" where
  "rasterize_run fr triangle z screen config =
     (let bbox = get_bounding_box triangle screen config
      in loop_run fr triangle z config bbox (entry bbox))"

definition rasterize_triangle ::
  "frame \<Rightarrow> Triangle \<Rightarrow> 'z option \<Rightarrow> Screen \<Rightarrow> Config \<Rightarrow> int option" where
  "rasterize_triangle fr triangle z screen config =
     map_option hit_count (rasterize_run fr triangle z screen config)"

definition rasterize_steps ::
  "frame \<Rightarrow> Triangle \<Rightarrow> 'z option \<Rightarrow> Screen \<Rightarrow> Config \<Rightarrow> nat \<Rightarrow> loop_state option" where
  "rasterize_steps fr triangle z screen config n =
     (let bbox = get_bounding_box triangle screen config
      in loop_steps fr triangle z config bbox n (entry bbox))"


section \<open>Vocabulary of the specification\<close>

text \<open>
  The 2D cross product, a vertex seen from a sample (the vertex shifted so that the
  sample is the origin), and the vertex of a triangle with a given index.
\<close>

definition cross2 :: "int \<times> int \<Rightarrow> int \<times> int \<Rightarrow> int" where
  "cross2 a b = fst a * snd b - fst b * snd a"

definition shifted :: "Vertex \<Rightarrow> Sample \<Rightarrow> int \<times> int" where
  "shifted vtx s = (v_x vtx - s_x s, v_y vtx - s_y s)"

definition vertex :: "Triangle \<Rightarrow> nat \<Rightarrow> Vertex" where
  "vertex t i = (if i = 0 then v0 t else if i = 1 then v1 t else v2 t)"

text \<open>
  The edge test in exact arithmetic: the three cross products of the shifted end points,
  as integers, at most zero on the edges \<open>0 \<rightarrow> 1\<close> and \<open>2 \<rightarrow> 0\<close> and negative on the edge
  \<open>1 \<rightarrow> 2\<close>.
\<close>

definition covers :: "Triangle \<Rightarrow> Sample \<Rightarrow> bool" where
  "covers t s =
     (cross2 (shifted (v0 t) s) (shifted (v1 t) s) \<le> 0 \<and>
      cross2 (shifted (v1 t) s) (shifted (v2 t) s) < 0 \<and>
      cross2 (shifted (v2 t) s) (shifted (v0 t) s) \<le> 0)"

text \<open>
  Every vertex is within \<open>32767\<close> of the sample on both axes.  Then no difference, no
  product and no cross product of the test leaves the 32-bit range.
\<close>

definition near :: "Triangle \<Rightarrow> Sample \<Rightarrow> bool" where
  "near t s =
     list_all (\<lambda>p. \<bar>v_x p - s_x s\<bar> \<le> 32767 \<and> \<bar>v_y p - s_y s\<bar> \<le> 32767) [v0 t, v1 t, v2 t]"

text \<open>
  The snapped box and the screen do not overlap: the upper-right corner is negative on
  an axis, or the lower-left corner lies beyond the screen's extent on an axis.
\<close>

definition no_overlap :: "BoundingBox \<Rightarrow> Screen \<Rightarrow> bool" where
  "no_overlap bbox screen =
     (s_x (upper_right bbox) < 0 \<or> s_y (upper_right bbox) < 0 \<or>
      s_x (lower_left bbox) > width screen \<or> s_y (lower_left bbox) > height screen)"

text \<open>A vertex at a position, with depth and colour \<open>0\<close>, and a triangle of three such.\<close>

definition vtx :: "int \<Rightarrow> int \<Rightarrow> Vertex" where
  "vtx a b = \<lparr>v_x = a, v_y = b, v_z = 0, v_R = 0, v_G = 0, v_B = 0\<rparr>"

definition tri :: "int \<times> int \<Rightarrow> int \<times> int \<Rightarrow> int \<times> int \<Rightarrow> Triangle" where
  "tri a b c = \<lparr>v0 = vtx (fst a) (snd a), v1 = vtx (fst b) (snd b), v2 = vtx (fst c) (snd c)\<rparr>"

subsection \<open>Frames\<close>

text \<open>No store of \<^verbatim>\<open>jitter_sample\<close> overwrites a vital byte.\<close>

definition harmless :: "frame \<Rightarrow> bool" where
  "harmless fr \<longleftrightarrow> \<not> list_ex (vital fr) (overrun fr)"

text \<open>
  Two frames without vital bytes near the arrays: one gives each array a slot of eight
  bytes, one packs the five bytes of \<^verbatim>\<open>arr40_2\<close> right below \<^verbatim>\<open>arr40_1\<close>.
\<close>

definition apart_frame :: frame where
  "apart_frame =
     \<lparr>arr40_1_at = 0, arr40_2_at = 8, vital = (\<lambda>b. False), initial_bytes = (\<lambda>b. 0)\<rparr>"

definition packed_frame :: frame where
  "packed_frame =
     \<lparr>arr40_1_at = 5, arr40_2_at = 0, vital = (\<lambda>b. False), initial_bytes = (\<lambda>b. 0)\<rparr>"

subsection \<open>The samples of a run\<close>

text \<open>
  The values of the counter of \<^verbatim>\<open>for (i = lo; i <= hi; i += step)\<close> for a positive stride,
  when the counter does not wrap.
\<close>

function range_c :: "int \<Rightarrow> int \<Rightarrow> int \<Rightarrow> int list" where
  "range_c i hi step = (if i \<le> hi \<and> 0 < step then i # range_c (i + step) hi step else [])"
  by pat_completeness auto
termination
  by (relation "measure (\<lambda>(i, hi, step). nat (hi - i + 1))") auto

declare range_c.simps [simp del]

text \<open>A body run on the elements of a list, one after the other.\<close>

primrec run_list :: "('a \<Rightarrow> 's \<Rightarrow> 's option) \<Rightarrow> 'a list \<Rightarrow> 's \<Rightarrow> 's option" where
  "run_list body [] st = Some st"
| "run_list body (a # as) st = Option.bind (body a st) (run_list body as)"

text \<open>The samples of a box in scan order: \<open>x\<close> outermost, \<open>y\<close> innermost.\<close>

definition box_samples :: "BoundingBox \<Rightarrow> int \<Rightarrow> Sample list" where
  "box_samples bbox step =
     concat (map (\<lambda>sx. map (\<lambda>sy. \<lparr>s_x = sx, s_y = sy\<rparr>)
                          (range_c (s_y (lower_left bbox)) (s_y (upper_right bbox)) step))
                 (range_c (s_x (lower_left bbox)) (s_x (upper_right bbox)) step))"

text \<open>The position that is tested for a sample with a given jitter.\<close>

definition jittered_by :: "Sample \<Rightarrow> Sample \<Rightarrow> Sample" where
  "jittered_by jitter sample =
     \<lparr>s_x = wrap32 (s_x sample + wrap32 (push_bit 2 (s_x jitter))),
      s_y = wrap32 (s_y sample + wrap32 (push_bit 2 (s_y jitter)))\<rparr>"

text \<open>The fragment of vertex \<open>0\<close>, and the call made for a covered sample.\<close>

definition flat_fragment :: "Triangle \<Rightarrow> Fragment" where
  "flat_fragment t = \<lparr>f_z = v_z (v0 t), f_R = v_R (v0 t), f_G = v_G (v0 t), f_B = v_B (v0 t)\<rparr>"

definition call_for :: "Triangle \<Rightarrow> Config \<Rightarrow> Sample \<Rightarrow> pf_call" where
  "call_for t config sample =
     \<lparr>hit_location = \<lparr>s_x = drop_bit (nat (r_shift config)) (s_x sample),
                       s_y = drop_bit (nat (r_shift config)) (s_y sample)\<rparr>,
      subsample =
        \<lparr>s_x = wrap32 (c_div
                  (wrap32 (s_x sample - wrap32 (push_bit (nat (r_shift config))
                                                   (drop_bit (nat (r_shift config)) (s_x sample)))))
                  (ss_i config)),
         s_y = wrap32 (c_div
                  (wrap32 (s_y sample - wrap32 (push_bit (nat (r_shift config))
                                                   (drop_bit (nat (r_shift config)) (s_y sample)))))
                  (ss_i config))\<rparr>,
      fragment = flat_fragment t\<rparr>"

text \<open>
  Whether a sample counts as a hit: its jitter is returned and the jittered position
  passes the coverage test.  The hits of a list of samples.
\<close>

definition is_hit :: "frame \<Rightarrow> Triangle \<Rightarrow> Config \<Rightarrow> Sample \<Rightarrow> bool" where
  "is_hit fr t config s =
     (case jitter_sample fr s (ss_w_lg2 config) of
        None \<Rightarrow> False
      | Some j \<Rightarrow> sample_test t (jittered_by j s))"

definition hits :: "frame \<Rightarrow> Triangle \<Rightarrow> Config \<Rightarrow> Sample list \<Rightarrow> Sample list" where
  "hits fr t config samples = filter (is_hit fr t config) samples"

text \<open>A state from which the next step runs the body, and the last call that a state holds.\<close>

definition at_body :: "BoundingBox \<Rightarrow> loop_state \<Rightarrow> bool" where
  "at_body bbox ls \<longleftrightarrow> l_ctl ls = Inner_test \<and> s_y (l_sample ls) \<le> s_y (upper_right bbox)"



subsection \<open>A brute-force reference for the hit count\<close>

text \<open>
  All points of the subsample grid on the screen: the multiples of the stride in
  \<open>[0, width] \<times> [0, height]\<close>.  The reference tests every one of them with the edge test,
  in exact arithmetic, and counts.
\<close>

definition screen_grid :: "Screen \<Rightarrow> Config \<Rightarrow> Sample list" where
  "screen_grid screen config =
     concat (map (\<lambda>i. map (\<lambda>j. \<lparr>s_x = i * ss_i config, s_y = j * ss_i config\<rparr>)
                         [0 .. height screen div ss_i config])
                 [0 .. width screen div ss_i config])"

definition reference_hit_count :: "Triangle \<Rightarrow> Screen \<Rightarrow> Config \<Rightarrow> int" where
  "reference_hit_count t screen config =
     int (length (filter (covers t) (screen_grid screen config)))"

definition inside_screen :: "Triangle \<Rightarrow> Screen \<Rightarrow> bool" where
  "inside_screen t screen =
     (list_all (\<lambda>p. 0 \<le> v_x p \<and> v_x p \<le> width screen \<and> 0 \<le> v_y p \<and> v_y p \<le> height screen)
        [v0 t, v1 t, v2 t])"

subsection \<open>Shared edges\<close>

definition pos :: "Vertex \<Rightarrow> int \<times> int" where
  "pos p = (v_x p, v_y p)"

text \<open>The directed edge \<open>i \<rightarrow> (i + 1) mod 3\<close> of a triangle.\<close>

definition edge_of :: "Triangle \<Rightarrow> nat \<Rightarrow> (int \<times> int) \<times> (int \<times> int)" where
  "edge_of t i = (pos (vertex t i), pos (vertex t ((i + 1) mod 3)))"

text \<open>Twice the signed area: the cross product of the edges \<open>0 \<rightarrow> 1\<close> and \<open>0 \<rightarrow> 2\<close>.\<close>

definition area2 :: "Triangle \<Rightarrow> int" where
  "area2 t = cross2 (v_x (v1 t) - v_x (v0 t), v_y (v1 t) - v_y (v0 t))
                    (v_x (v2 t) - v_x (v0 t), v_y (v2 t) - v_y (v0 t))"

definition dot2 :: "int \<times> int \<Rightarrow> int \<times> int \<Rightarrow> int" where
  "dot2 a b = fst a * fst b + snd a * snd b"

text \<open>
  A sample on the segment from \<open>p\<close> to \<open>q\<close>: it is collinear with the end points and not
  outside them; strictly between them when it is neither end point.
\<close>

definition on_segment :: "Sample \<Rightarrow> int \<times> int \<Rightarrow> int \<times> int \<Rightarrow> bool" where
  "on_segment s p q =
     (cross2 (fst p - s_x s, snd p - s_y s) (fst q - s_x s, snd q - s_y s) = 0 \<and>
      dot2 (fst p - s_x s, snd p - s_y s) (fst q - s_x s, snd q - s_y s) \<le> 0)"

definition strictly_between :: "Sample \<Rightarrow> int \<times> int \<Rightarrow> int \<times> int \<Rightarrow> bool" where
  "strictly_between s p q =
     (cross2 (fst p - s_x s, snd p - s_y s) (fst q - s_x s, snd q - s_y s) = 0 \<and>
      dot2 (fst p - s_x s, snd p - s_y s) (fst q - s_x s, snd q - s_y s) < 0)"

section \<open>Fixed-point utilities\<close>

lemma and_neg_pow: "(x::int) AND - (2 ^ k) = x - x mod 2 ^ k"
proof -
  have "x AND NOT (mask k) = push_bit k (drop_bit k x)"
    by (rule bit_eqI) (auto simp: bit_simps)
  moreover have "push_bit k (drop_bit k x) = x - take_bit k x"
    using bits_ident [of k x] by simp
  ultimately show ?thesis
    by (simp add: minus_exp_eq_not_mask take_bit_eq_mod)
qed

lemma mask32:
  assumes "k < 32"
  shows "sint (push_bit k (0xFFFFFFFF :: 32 word)) = - (2 ^ k)"
proof -
  have pw: "(2::int) ^ k \<le> 2 ^ 31"
    using assms by (intro power_increasing) simp_all
  have pos: "(0::int) < 2 ^ k" by simp
  have a: "- (2 ^ 31) \<le> - ((2::int) ^ k)" using pw by linarith
  have b: "- ((2::int) ^ k) < 2 ^ 31" using pw pos by linarith
  have "(0xFFFFFFFF :: 32 word) = - 1" by simp
  then have "push_bit k (0xFFFFFFFF :: 32 word) = - (2 ^ k)"
    by (simp only: push_bit_minus_one_eq_not_mask minus_exp_eq_not_mask)
  also have "\<dots> = word_of_int (- (2 ^ k))" by simp
  finally have "sint (push_bit k (0xFFFFFFFF :: 32 word)) = signed_take_bit 31 (- (2 ^ k) :: int)"
    by (simp only: sint_sbintrunc') simp
  also have "\<dots> = - (2 ^ k)"
    by (rule signed_take_bit_int_eq_self [OF a b])
  finally show ?thesis .
qed

lemma floor_ss_eq:
  assumes "rs - ssw < 32"
  shows "floor_ss val rs ssw = val - val mod 2 ^ nat (rs - ssw)"
proof -
  have "nat (rs - ssw) < 32" using assms by simp
  then show ?thesis
    by (simp add: floor_ss_def mask32 and_neg_pow)
qed

text \<open>
  Claim C7.  For \<open>0 \<le> ss_w_lg2 \<le> r_shift < 32\<close> the result of \<open>floor_ss\<close> is a multiple
  of the grid cell width \<open>2 ^ (r_shift - ss_w_lg2)\<close>, it is at most the input, and the
  input exceeds it by less than one cell.  It is the cell width times the quotient of
  HOL's \<open>div\<close>, which rounds towards minus infinity: a negative value off the grid is
  moved down, not towards zero.
\<close>

theorem floor_ss_rounds_down:
  assumes "0 \<le> ssw" and "ssw \<le> rs" and "rs < 32"
  shows "2 ^ nat (rs - ssw) dvd floor_ss val rs ssw \<and>
         floor_ss val rs ssw \<le> val \<and>
         val - floor_ss val rs ssw < 2 ^ nat (rs - ssw) \<and>
         floor_ss val rs ssw = 2 ^ nat (rs - ssw) * (val div 2 ^ nat (rs - ssw)) \<and>
         (val < 0 \<and> \<not> 2 ^ nat (rs - ssw) dvd val \<longrightarrow> floor_ss val rs ssw < val)"
proof -
  define c :: int where "c = 2 ^ nat (rs - ssw)"
  have c: "0 < c" by (simp add: c_def)
  have eq: "floor_ss val rs ssw = val - val mod c"
    using assms by (simp add: floor_ss_eq c_def)
  have m: "0 \<le> val mod c" "val mod c < c"
    using c by simp_all
  have q: "val - val mod c = c * (val div c)"
    by (simp add: minus_mod_eq_mult_div)
  have "c dvd val - val mod c"
    by (simp add: q)
  moreover have "\<not> c dvd val \<longrightarrow> 0 < val mod c"
    using m(1) by (auto simp: dvd_eq_mod_eq_0 order_le_less)
  ultimately show ?thesis
    using m q unfolding eq c_def [symmetric] by auto
qed

theorem floor_ss_rounds_down_witness:
  "floor_ss (- 5) 4 2 = - 8 \<and> floor_ss (- 5) 4 2 < - 5"
  using floor_ss_rounds_down [of 2 4 "- 5"] by simp


section \<open>Bounding box\<close>

lemma snapped_box_valid: "valid (snapped_box t config)"
  by (simp add: snapped_box_def bbox_update_def Let_def)

lemma snapped_box_corners:
  "s_x (lower_left (snapped_box t config)) =
     floor_ss (min_c (min_c (v_x (v0 t)) (v_x (v1 t))) (v_x (v2 t))) (r_shift config) (ss_w_lg2 config)"
  "s_y (lower_left (snapped_box t config)) =
     floor_ss (min_c (min_c (v_y (v0 t)) (v_y (v1 t))) (v_y (v2 t))) (r_shift config) (ss_w_lg2 config)"
  "s_x (upper_right (snapped_box t config)) =
     floor_ss (max_c (max_c (v_x (v0 t)) (v_x (v1 t))) (v_x (v2 t))) (r_shift config) (ss_w_lg2 config)"
  "s_y (upper_right (snapped_box t config)) =
     floor_ss (max_c (max_c (v_y (v0 t)) (v_y (v1 t))) (v_y (v2 t))) (r_shift config) (ss_w_lg2 config)"
  by (simp_all add: snapped_box_def bbox_update_def Let_def)

lemma get_bounding_box_corners:
  "s_x (lower_left (get_bounding_box t screen config)) =
     max_c (s_x (lower_left (snapped_box t config))) 0"
  "s_y (lower_left (get_bounding_box t screen config)) =
     max_c (s_y (lower_left (snapped_box t config))) 0"
  "s_x (upper_right (get_bounding_box t screen config)) =
     min_c (s_x (upper_right (snapped_box t config))) (width screen)"
  "s_y (upper_right (get_bounding_box t screen config)) =
     min_c (s_y (upper_right (snapped_box t config))) (height screen)"
  by (simp_all add: get_bounding_box_def Let_def)

lemma valid_after_clip:
  "valid (get_bounding_box t screen config) \<longleftrightarrow>
     \<not> (min_c (s_x (upper_right (snapped_box t config))) (width screen) < 0 \<or>
        min_c (s_y (upper_right (snapped_box t config))) (height screen) < 0 \<or>
        max_c (s_x (lower_left (snapped_box t config))) 0 > width screen \<or>
        max_c (s_y (lower_left (snapped_box t config))) 0 > height screen)"
  by (simp add: get_bounding_box_def Let_def snapped_box_valid)

text \<open>
  Claim C3, as amended.  On a screen of non-negative width and height the box is
  flagged invalid iff the snapped, unclipped box has a negative upper-right coordinate or
  a lower-left coordinate beyond the screen's extent.  The code tests the clipped values;
  on such a screen the two tests agree, and a box that meets the screen exactly at its
  boundary is valid.
\<close>

theorem get_bounding_box_valid_iff:
  assumes "0 \<le> width screen" and "0 \<le> height screen"
  shows "(valid (get_bounding_box t screen config) = False) =
           no_overlap (snapped_box t config) screen"
  using assms
  by (auto simp add: valid_after_clip no_overlap_def min_c_def max_c_def)

theorem get_bounding_box_valid_iff_witness:
  "valid (get_bounding_box (tri (0, 0) (0, 160) (160, 0)) \<lparr>width = 160, height = 256\<rparr>
            \<lparr>r_shift = 4, ss_w_lg2 = 0, ss_i = 16\<rparr>)"
  using get_bounding_box_valid_iff [of "\<lparr>width = 160, height = 256\<rparr>"
      "tri (0, 0) (0, 160) (160, 0)" "\<lparr>r_shift = 4, ss_w_lg2 = 0, ss_i = 16\<rparr>"]
  by (simp add: no_overlap_def snapped_box_corners floor_ss_eq min_c_def max_c_def
      tri_def vtx_def)

text \<open>
  The claim speaks of every screen.  On a screen of width \<open>-1\<close> the snapped box
  \<open>[-16, 16] \<times> [0, 16]\<close> passes the test on the unclipped values (its upper-right corner
  is not negative, its lower-left corner is not beyond the extent), and the code, which
  tests the clipped upper-right \<open>x = min 16 (-1)\<close>, flags it invalid.
\<close>

theorem get_bounding_box_negative_width_counterexample:
  "(valid (get_bounding_box (tri (- 16, 0) (16, 0) (0, 16)) \<lparr>width = - 1, height = 16\<rparr>
             \<lparr>r_shift = 4, ss_w_lg2 = 0, ss_i = 16\<rparr>) = False) \<noteq>
   no_overlap (snapped_box (tri (- 16, 0) (16, 0) (0, 16)) \<lparr>r_shift = 4, ss_w_lg2 = 0, ss_i = 16\<rparr>)
     \<lparr>width = - 1, height = 16\<rparr>"
  by (simp add: valid_after_clip no_overlap_def snapped_box_corners
      floor_ss_eq min_c_def max_c_def tri_def vtx_def)

section \<open>32-bit arithmetic\<close>

lemma wrap32_id: "c_int x \<Longrightarrow> wrap32 x = x"
  by (simp add: c_int_def wrap32_def mod_pos_pos_trivial)

lemma wrap32_c_int: "c_int (wrap32 x)"
proof -
  have "0 \<le> (x + 2 ^ 31) mod 2 ^ 32" "(x + 2 ^ 31) mod 2 ^ 32 < (2 ^ 32 :: int)"
    by simp_all
  then show ?thesis by (simp add: c_int_def wrap32_def)
qed

lemma wrap32_idem: "wrap32 (wrap32 x) = wrap32 x"
  by (rule wrap32_id) (rule wrap32_c_int)

lemma wrap32_add_left: "wrap32 (wrap32 a + b) = wrap32 (a + b)"
proof -
  have "(wrap32 a + b + 2 ^ 31) mod 2 ^ 32 = ((a + 2 ^ 31) mod 2 ^ 32 + b) mod 2 ^ 32"
    by (simp add: wrap32_def algebra_simps)
  also have "\<dots> = (a + 2 ^ 31 + b) mod 2 ^ 32"
    by (rule mod_add_left_eq)
  finally show ?thesis
    by (simp add: wrap32_def algebra_simps)
qed

lemma c_int_abs: "\<bar>x\<bar> \<le> 2147483647 \<Longrightarrow> c_int x"
  unfolding c_int_def by (simp add: abs_le_iff)

lemma product_bound:
  fixes a b :: int
  assumes "\<bar>a\<bar> \<le> 32767" and "\<bar>b\<bar> \<le> 32767"
  shows "\<bar>a * b\<bar> \<le> 1073676289"
proof -
  have "\<bar>a\<bar> * \<bar>b\<bar> \<le> 32767 * 32767"
    using assms by (intro mult_mono) simp_all
  then show ?thesis by (simp add: abs_mult)
qed

lemma wrap32_cross:
  fixes a b c d :: int
  assumes "\<bar>a\<bar> \<le> 32767" and "\<bar>b\<bar> \<le> 32767" and "\<bar>c\<bar> \<le> 32767" and "\<bar>d\<bar> \<le> 32767"
  shows "wrap32 (wrap32 (a * b) - wrap32 (c * d)) = a * b - c * d"
proof -
  have p: "\<bar>a * b\<bar> \<le> 1073676289" and q: "\<bar>c * d\<bar> \<le> 1073676289"
    using assms by (simp_all add: product_bound)
  have "wrap32 (a * b) = a * b" "wrap32 (c * d) = c * d"
    using p q by (simp_all add: wrap32_id c_int_abs)
  moreover have "\<bar>a * b - c * d\<bar> \<le> 2147483647"
    using p q by linarith
  ultimately show ?thesis
    by (simp add: wrap32_id c_int_abs)
qed

section \<open>Coverage test\<close>

text \<open>Near the sample the test computes the three cross products exactly.\<close>

lemma sample_test_exact:
  assumes "near t s"
  shows "sample_test t s = covers t s"
proof -
  define ax where "ax = v_x (v0 t) - s_x s"
  define ay where "ay = v_y (v0 t) - s_y s"
  define bx where "bx = v_x (v1 t) - s_x s"
  define by' where "by' = v_y (v1 t) - s_y s"
  define cx where "cx = v_x (v2 t) - s_x s"
  define cy where "cy = v_y (v2 t) - s_y s"
  note d = ax_def ay_def bx_def by'_def cx_def cy_def
  have b: "\<bar>ax\<bar> \<le> 32767" "\<bar>ay\<bar> \<le> 32767" "\<bar>bx\<bar> \<le> 32767" "\<bar>by'\<bar> \<le> 32767"
    "\<bar>cx\<bar> \<le> 32767" "\<bar>cy\<bar> \<le> 32767"
    using assms by (simp_all add: near_def d)
  have w: "wrap32 ax = ax" "wrap32 ay = ay" "wrap32 bx = bx" "wrap32 by' = by'"
    "wrap32 cx = cx" "wrap32 cy = cy"
    using b by (simp_all add: wrap32_id c_int_abs)
  have "sample_test t s \<longleftrightarrow>
      wrap32 (wrap32 (ax * by') - wrap32 (bx * ay)) \<le> 0 \<and>
      wrap32 (wrap32 (bx * cy) - wrap32 (cx * by')) < 0 \<and>
      wrap32 (wrap32 (cx * ay) - wrap32 (ax * cy)) \<le> 0"
    by (simp add: sample_test_def Let_def w flip: d)
  also have "\<dots> \<longleftrightarrow> ax * by' - bx * ay \<le> 0 \<and> bx * cy - cx * by' < 0 \<and> cx * ay - ax * cy \<le> 0"
    using b by (simp add: wrap32_cross)
  also have "\<dots> \<longleftrightarrow> covers t s"
    by (simp add: covers_def cross2_def shifted_def d)
  finally show ?thesis .
qed

text \<open>
  Away from the sample it does not.  All three cross products of the triangle
  \<open>(0,0), (0,50000), (50000,0)\<close> at the sample \<open>(1, 1)\<close> are negative, and the product
  \<open>49999 * 49999\<close> of the test wraps to \<open>-1795067295\<close>.
\<close>

lemma sample_test_wraps:
  "covers (tri (0, 0) (0, 50000) (50000, 0)) \<lparr>s_x = 1, s_y = 1\<rparr> \<and>
   \<not> sample_test (tri (0, 0) (0, 50000) (50000, 0)) \<lparr>s_x = 1, s_y = 1\<rparr>"
  by (simp add: covers_def cross2_def shifted_def sample_test_def wrap32_def tri_def vtx_def Let_def)

text \<open>
  Claim C1, as amended.  When every vertex is within \<open>32767\<close> of the sample on both axes,
  \<open>sample_test\<close> returns true iff all three edge tests pass, and the tests are: the cross
  product of the shifted end points is \<^emph>\<open>at most zero\<close> for the edges \<open>0 \<rightarrow> 1\<close> and
  \<open>2 \<rightarrow> 0\<close>, and strictly negative for the edge \<open>1 \<rightarrow> 2\<close>.  (Farther from the sample the
  32-bit products of the code wrap, see \<open>sample_test_wraps\<close>.)
\<close>

theorem sample_test_iff_edge_tests:
  assumes "near t s"
  shows "sample_test t s =
     (cross2 (shifted (v0 t) s) (shifted (v1 t) s) \<le> 0 \<and>
      cross2 (shifted (v1 t) s) (shifted (v2 t) s) < 0 \<and>
      cross2 (shifted (v2 t) s) (shifted (v0 t) s) \<le> 0)"
  using sample_test_exact [OF assms] by (simp only: covers_def)

theorem sample_test_iff_edge_tests_witness:
  "near (tri (0, 0) (0, 160) (160, 0)) \<lparr>s_x = 16, s_y = 16\<rparr> \<and>
   sample_test (tri (0, 0) (0, 160) (160, 0)) \<lparr>s_x = 16, s_y = 16\<rparr> \<and>
   cross2 (shifted (v0 (tri (0, 0) (0, 160) (160, 0))) \<lparr>s_x = 16, s_y = 16\<rparr>)
          (shifted (v1 (tri (0, 0) (0, 160) (160, 0))) \<lparr>s_x = 16, s_y = 16\<rparr>) = - 2560"
  using sample_test_iff_edge_tests [of "tri (0, 0) (0, 160) (160, 0)" "\<lparr>s_x = 16, s_y = 16\<rparr>"]
  by (simp add: near_def cross2_def shifted_def tri_def vtx_def)

text \<open>
  The claim as stated asks for a non-negative cross product on the edges \<open>0 \<rightarrow> 1\<close> and
  \<open>2 \<rightarrow> 0\<close>.  The sample \<open>(16, 16)\<close> lies inside the triangle \<open>(0,0), (0,160), (160,0)\<close>
  and is covered, with all three cross products negative.
\<close>

theorem sample_test_nonneg_counterexample:
  "sample_test (tri (0, 0) (0, 160) (160, 0)) \<lparr>s_x = 16, s_y = 16\<rparr> \<noteq>
     (0 \<le> cross2 (shifted (v0 (tri (0, 0) (0, 160) (160, 0))) \<lparr>s_x = 16, s_y = 16\<rparr>)
                  (shifted (v1 (tri (0, 0) (0, 160) (160, 0))) \<lparr>s_x = 16, s_y = 16\<rparr>) \<and>
      cross2 (shifted (v1 (tri (0, 0) (0, 160) (160, 0))) \<lparr>s_x = 16, s_y = 16\<rparr>)
             (shifted (v2 (tri (0, 0) (0, 160) (160, 0))) \<lparr>s_x = 16, s_y = 16\<rparr>) < 0 \<and>
      0 \<le> cross2 (shifted (v2 (tri (0, 0) (0, 160) (160, 0))) \<lparr>s_x = 16, s_y = 16\<rparr>)
                  (shifted (v0 (tri (0, 0) (0, 160) (160, 0))) \<lparr>s_x = 16, s_y = 16\<rparr>))"
  by (simp add: sample_test_def wrap32_def cross2_def shifted_def tri_def vtx_def Let_def)

section \<open>Jitter hash\<close>

lemma jitter_mask: "uint (drop_bit n (0x00ff :: 16 word)) = int (255 div 2 ^ n)"
proof -
  have "unat (drop_bit n (0x00ff :: 16 word)) = drop_bit n (unat (0x00ff :: 16 word))"
    by (rule unat_drop_bit_eq)
  also have "\<dots> = drop_bit n (255::nat)" by simp
  also have "\<dots> = 255 div 2 ^ n" by (rule drop_bit_eq_div)
  finally show ?thesis
    by (simp only: uint_nat)
qed

lemma hash_le_mask: "uint (hash_40to8 arr k) \<le> int (255 div 2 ^ nat k)"
proof -
  have "hash_40to8 arr k \<le> drop_bit (nat k) (0x00ff :: 16 word)"
    unfolding hash_40to8_def Let_def by (rule word_and_le1)
  then show ?thesis
    by (simp only: word_le_def jitter_mask)
qed

lemma mask_div_bound:
  assumes "n \<le> 8"
  shows "(255::nat) div 2 ^ n < 2 ^ (8 - n)"
proof -
  have "(2::nat) ^ 8 = 2 ^ (8 - n) * 2 ^ n"
    using assms by (simp flip: power_add)
  then have "(255::nat) < 2 ^ (8 - n) * 2 ^ n" by simp
  then show ?thesis
    by (rule less_mult_imp_div_less)
qed

lemma mask_div_zero:
  assumes "8 \<le> n"
  shows "(255::nat) div 2 ^ n = 0"
proof -
  have "(2::nat) ^ 8 \<le> 2 ^ n" using assms by (intro power_increasing) simp_all
  then show ?thesis by simp
qed

lemma hash_bound:
  assumes "0 \<le> k" and "k \<le> 8"
  shows "uint (hash_40to8 arr k) < 2 ^ nat (8 - k)"
proof -
  have "nat k \<le> 8" using assms by simp
  then have "int (255 div 2 ^ nat k) < int (2 ^ (8 - nat k))"
    by (simp only: of_nat_less_iff mask_div_bound)
  moreover have "8 - nat k = nat (8 - k)" using assms by simp
  moreover have "int (2 ^ nat (8 - k)) = 2 ^ nat (8 - k)" by simp
  ultimately have "int (255 div 2 ^ nat k) < 2 ^ nat (8 - k)" by (simp only:)
  then show ?thesis
    using hash_le_mask [of arr k] by linarith
qed

lemma hash_zero:
  assumes "8 \<le> k"
  shows "hash_40to8 arr k = 0"
proof -
  have "8 \<le> nat k" using assms by simp
  then have "uint (hash_40to8 arr k) \<le> 0"
    using hash_le_mask [of arr k] by (simp add: mask_div_zero)
  then show ?thesis by (simp add: word_uint_eq_iff)
qed

lemma hash_le_255: "uint (hash_40to8 arr k) \<le> 255"
proof -
  have "(255::nat) div 2 ^ nat k \<le> 255" by (rule div_le_dividend)
  then show ?thesis using hash_le_mask [of arr k] by linarith
qed

lemma jitter_sample_lost: "\<not> harmless fr \<Longrightarrow> jitter_sample fr s k = None"
  by (simp add: jitter_sample_def harmless_def Let_def)

lemma jitter_sample_zero:
  "8 \<le> k \<Longrightarrow> harmless fr \<Longrightarrow> jitter_sample fr s k = Some \<lparr>s_x = 0, s_y = 0\<rparr>"
  by (simp add: jitter_sample_def harmless_def Let_def hash_zero)

text \<open>Whatever the stores leave in the arrays, a jitter that is returned is masked.\<close>

lemma jitter_sample_masked:
  assumes "jitter_sample fr s k = Some j"
  shows "0 \<le> s_x j \<and> s_x j \<le> 255 \<and> 0 \<le> s_y j \<and> s_y j \<le> 255 \<and>
         (0 \<le> k \<and> k \<le> 8 \<longrightarrow> s_x j < 2 ^ nat (8 - k) \<and> s_y j < 2 ^ nat (8 - k))"
  using assms
  by (auto simp: jitter_sample_def Let_def hash_le_255 hash_bound split: if_splits)

text \<open>A jitter of at most \<open>255\<close> is scaled and added without a wrap when the sample allows it.\<close>

lemma jittered_by_zero: "c_int (s_x s) \<Longrightarrow> c_int (s_y s) \<Longrightarrow> jittered_by \<lparr>s_x = 0, s_y = 0\<rparr> s = s"
  by (simp add: jittered_by_def wrap32_id c_int_def)

text \<open>
  Claim C4.  The two stores of \<^verbatim>\<open>jitter_sample\<close> write eight bytes into arrays of five, so
  what the hash reads depends on where the compiler has put the arrays.  For the sample
  \<open>(16, 16)\<close> and \<open>ss_w_lg2 = 0\<close>: when the arrays lie apart, the jitter is \<open>(1, 1)\<close>; when
  \<^verbatim>\<open>arr40_2\<close> lies right below \<^verbatim>\<open>arr40_1\<close>, the second store overwrites the first three bytes
  of \<^verbatim>\<open>arr40_1\<close> and the jitter is \<open>(0, 1)\<close>.  Identical arguments do not give identical
  results.  (The range half of the claim holds of every result, see
  \<open>jitter_sample_masked\<close>.)
\<close>

theorem jitter_sample_depends_on_frame:
  "jitter_sample apart_frame \<lparr>s_x = 16, s_y = 16\<rparr> 0 = Some \<lparr>s_x = 1, s_y = 1\<rparr> \<and>
   jitter_sample packed_frame \<lparr>s_x = 16, s_y = 16\<rparr> 0 = Some \<lparr>s_x = 0, s_y = 1\<rparr>"
  by (simp add: jitter_sample_def hash_40to8_def store_long_def load_arr40_def overrun_def
      apart_frame_def packed_frame_def Let_def upt_rec drop_bit_eq_div push_bit_eq_mult)

section \<open>The body\<close>

lemma sample_body_eq:
  "sample_body fr t z config s st =
     (case jitter_sample fr s (ss_w_lg2 config) of
        None \<Rightarrow> None
      | Some j \<Rightarrow>
          if sample_test t (jittered_by j s)
          then if z \<noteq> None
               then if ss_i config = 0 then None
                    else Some (st\<lparr>hit_count := wrap32 (hit_count st + 1),
                                  calls := calls st @ [call_for t config s]\<rparr>)
               else Some (st\<lparr>hit_count := wrap32 (hit_count st + 1)\<rparr>)
          else Some st)"
  by (simp add: sample_body_def jittered_by_def call_for_def flat_fragment_def Let_def
      split: option.splits)


lemma sample_body_harmless:
  assumes "harmless fr" and "ss_i config \<noteq> 0 \<or> z = None"
  shows "sample_body fr t z config s st =
           Some (if is_hit fr t config s
                 then st\<lparr>hit_count := wrap32 (hit_count st + 1),
                         calls := calls st @ (if z \<noteq> None then [call_for t config s] else [])\<rparr>
                 else st)"
proof -
  obtain j where "jitter_sample fr s (ss_w_lg2 config) = Some j"
    using assms(1) by (auto simp: jitter_sample_def harmless_def Let_def)
  then show ?thesis
    using assms(2) by (auto simp: sample_body_eq is_hit_def)
qed

section \<open>The loop as a transition system\<close>

lemma loop_run_returned:
  "l_ctl ls = Returned \<Longrightarrow> loop_run fr t z config bbox ls = Some (l_acc ls)"
  by (subst loop_run.simps) simp

lemma loop_run_step:
  "l_ctl ls \<noteq> Returned \<Longrightarrow>
   loop_run fr t z config bbox ls =
     Option.bind (loop_step fr t z config bbox ls) (loop_run fr t z config bbox)"
  by (subst loop_run.simps) simp


lemma loop_steps_front:
  "loop_steps fr t z config bbox (Suc n) ls =
     Option.bind (loop_step fr t z config bbox ls) (loop_steps fr t z config bbox n)"
  by (induction n) (simp_all cong: Option.bind_cong)


lemma loop_run_imp_steps:
  assumes "loop_run fr t z config bbox ls = Some r"
  shows "\<exists>n ls'. loop_steps fr t z config bbox n ls = Some ls' \<and> l_ctl ls' = Returned \<and>
                  l_acc ls' = r"
  using assms
proof (induction rule: loop_run.raw_induct [rotated 1, consumes 1])
  case (1 run' fr t z config bbox ls r)
  show ?case
  proof (cases "l_ctl ls = Returned")
    case True
    then have "loop_steps fr t z config bbox 0 ls = Some ls \<and> l_ctl ls = Returned \<and> l_acc ls = r"
      using 1(2) by simp
    then show ?thesis by blast
  next
    case False
    then obtain ls1 where s1: "loop_step fr t z config bbox ls = Some ls1"
      and r1: "run' fr t z config bbox ls1 = Some r"
      using 1(2) by (auto simp: bind_eq_Some_conv)
    obtain n ls' where "loop_steps fr t z config bbox n ls1 = Some ls'"
      "l_ctl ls' = Returned" "l_acc ls' = r"
      using 1(1) [OF r1] by blast
    then have "loop_steps fr t z config bbox (Suc n) ls = Some ls' \<and> l_ctl ls' = Returned \<and>
               l_acc ls' = r"
      using s1 unfolding loop_steps_front by simp
    then show ?thesis by blast
  qed
qed

text \<open>A property that every step keeps holds of every state that is reached.\<close>

lemma loop_steps_invariant:
  assumes "loop_steps fr t z config bbox n ls = Some ls'"
    and "I ls"
    and "\<And>a b. I a \<Longrightarrow> loop_step fr t z config bbox a = Some b \<Longrightarrow> I b"
  shows "I ls'"
  using assms(1)
proof (induction n arbitrary: ls')
  case 0
  then show ?case using assms(2) by simp
next
  case (Suc n)
  then obtain a where "loop_steps fr t z config bbox n ls = Some a"
    "loop_step fr t z config bbox a = Some ls'"
    by (auto simp: bind_eq_Some_conv)
  then show ?case using Suc.IH assms(3) by blast
qed

text \<open>A run that cannot leave a set of states in which the loops go on does not return.\<close>

lemma loop_run_never:
  assumes "I ls"
    and "\<And>a b. I a \<Longrightarrow> loop_step fr t z config bbox a = Some b \<Longrightarrow> I b"
    and "\<And>a. I a \<Longrightarrow> l_ctl a \<noteq> Returned"
  shows "loop_run fr t z config bbox ls = None"
proof (rule ccontr)
  assume "loop_run fr t z config bbox ls \<noteq> None"
  then obtain r where "loop_run fr t z config bbox ls = Some r" by auto
  then obtain n ls' where "loop_steps fr t z config bbox n ls = Some ls'" "l_ctl ls' = Returned"
    using loop_run_imp_steps by blast
  moreover have "I ls'"
    using calculation(1) assms(1,2) by (rule loop_steps_invariant)
  ultimately show False using assms(3) by blast
qed

section \<open>The loop without a wrap\<close>

lemma loop_run_outer:
  "loop_run fr t z config bbox
     \<lparr>l_ctl = Outer_test, l_sample = \<lparr>s_x = x, s_y = y\<rparr>, l_acc = a\<rparr> =
   (if x \<le> s_x (upper_right bbox)
    then loop_run fr t z config bbox
           \<lparr>l_ctl = Inner_test, l_sample = \<lparr>s_x = x, s_y = s_y (lower_left bbox)\<rparr>, l_acc = a\<rparr>
    else Some a)"
  by (simp add: loop_run_step loop_step_def loop_run_returned)

lemma loop_run_inner:
  "loop_run fr t z config bbox
     \<lparr>l_ctl = Inner_test, l_sample = \<lparr>s_x = x, s_y = y\<rparr>, l_acc = a\<rparr> =
   (if y \<le> s_y (upper_right bbox)
    then Option.bind (sample_body fr t z config \<lparr>s_x = x, s_y = y\<rparr> a)
           (\<lambda>a'. loop_run fr t z config bbox
                    \<lparr>l_ctl = Inner_test,
                     l_sample = \<lparr>s_x = x, s_y = wrap32 (y + ss_i config)\<rparr>, l_acc = a'\<rparr>)
    else loop_run fr t z config bbox
           \<lparr>l_ctl = Outer_test,
            l_sample = \<lparr>s_x = wrap32 (x + ss_i config), s_y = y\<rparr>, l_acc = a\<rparr>)"
  by (simp add: loop_run_step loop_step_def cong: Option.bind_cong)

lemma loop_run_outer_any:
  "loop_run fr t z config bbox
     \<lparr>l_ctl = Outer_test, l_sample = \<lparr>s_x = x, s_y = y\<rparr>, l_acc = a\<rparr> =
   loop_run fr t z config bbox
     \<lparr>l_ctl = Outer_test, l_sample = \<lparr>s_x = x, s_y = 0\<rparr>, l_acc = a\<rparr>"
  by (simp only: loop_run_outer)

text \<open>
  The inner loop from \<open>y\<close> on, for a positive stride that cannot carry the counters past
  \<open>2^31\<close>: the body on the values of \<open>range_c\<close>, then the outer loop at \<open>x + ss_i\<close>.
\<close>

lemma run_list_append:
  "run_list body (xs @ ys) st = Option.bind (run_list body xs st) (run_list body ys)"
  by (induction xs arbitrary: st) (simp_all cong: Option.bind_cong)

lemma run_list_nested:
  "run_list (\<lambda>a. run_list (\<lambda>b. body (f a b)) bs) as st =
   run_list body (concat (map (\<lambda>a. map (f a) bs) as)) st"
proof (induction as arbitrary: st)
  case Nil
  show ?case by simp
next
  case (Cons a as)
  have inner: "run_list (\<lambda>b. body (f a b)) bs s = run_list body (map (f a) bs) s" for s
    by (induction bs arbitrary: s) (simp_all cong: Option.bind_cong)
  show ?case
    by (simp add: run_list_append inner Cons cong: Option.bind_cong)
qed

lemma inner_loop_closed:
  "0 < c \<Longrightarrow> ss_i config = c \<Longrightarrow> s_y (upper_right bbox) = uy \<Longrightarrow> uy + c < 2 ^ 31 \<Longrightarrow>
   - (2 ^ 31) \<le> y \<Longrightarrow> c_int (x + c) \<Longrightarrow>
   loop_run fr t z config bbox
     \<lparr>l_ctl = Inner_test, l_sample = \<lparr>s_x = x, s_y = y\<rparr>, l_acc = a\<rparr> =
   Option.bind (run_list (\<lambda>sy. sample_body fr t z config \<lparr>s_x = x, s_y = sy\<rparr>)
                  (range_c y uy c) a)
     (\<lambda>a'. loop_run fr t z config bbox
              \<lparr>l_ctl = Outer_test, l_sample = \<lparr>s_x = x + c, s_y = 0\<rparr>, l_acc = a'\<rparr>)"
proof (induction y uy c arbitrary: a rule: range_c.induct)
  case (1 y uy c)
  show ?case
  proof (cases "y \<le> uy")
    case True
    have "c_int (y + c)"
      using True 1(2,5,6) by (simp add: c_int_def)
    then have w: "wrap32 (y + c) = y + c" by (rule wrap32_id)
    have r: "range_c y uy c = y # range_c (y + c) uy c"
      using True 1(2) by (subst range_c.simps) simp
    have IH: "loop_run fr t z config bbox
           \<lparr>l_ctl = Inner_test, l_sample = \<lparr>s_x = x, s_y = y + c\<rparr>, l_acc = a'\<rparr> =
         Option.bind (run_list (\<lambda>sy. sample_body fr t z config \<lparr>s_x = x, s_y = sy\<rparr>)
                        (range_c (y + c) uy c) a')
           (\<lambda>a'. loop_run fr t z config bbox
                    \<lparr>l_ctl = Outer_test, l_sample = \<lparr>s_x = x + c, s_y = 0\<rparr>, l_acc = a'\<rparr>)"
      for a'
      using 1(1) [of a'] True 1(2-7) by simp
    show ?thesis
      using True 1(3,4)
      by (subst loop_run_inner) (simp add: w r IH cong: Option.bind_cong)
  next
    case False
    have r: "range_c y uy c = []"
      using False by (subst range_c.simps) simp
    have w: "wrap32 (x + c) = x + c" using 1(7) by (rule wrap32_id)
    show ?thesis
      using False 1(3,4)
      by (subst loop_run_inner, subst loop_run_outer_any) (simp add: r w)
  qed
qed

lemma outer_loop_closed:
  "0 < c \<Longrightarrow> ss_i config = c \<Longrightarrow> s_y (upper_right bbox) = uy \<Longrightarrow> uy + c < 2 ^ 31 \<Longrightarrow>
   - (2 ^ 31) \<le> s_y (lower_left bbox) \<Longrightarrow> s_x (upper_right bbox) = ux \<Longrightarrow>
   ux + c < 2 ^ 31 \<Longrightarrow> - (2 ^ 31) \<le> x \<Longrightarrow>
   loop_run fr t z config bbox
     \<lparr>l_ctl = Outer_test, l_sample = \<lparr>s_x = x, s_y = 0\<rparr>, l_acc = a\<rparr> =
   run_list (\<lambda>sx. run_list (\<lambda>sy. sample_body fr t z config \<lparr>s_x = sx, s_y = sy\<rparr>)
                      (range_c (s_y (lower_left bbox)) uy c))
     (range_c x ux c) a"
proof (induction x ux c arbitrary: a rule: range_c.induct)
  case (1 x ux c)
  show ?case
  proof (cases "x \<le> ux")
    case True
    have ci: "c_int (x + c)"
      using True 1(2,8,9) by (simp add: c_int_def)
    have r: "range_c x ux c = x # range_c (x + c) ux c"
      using True 1(2) by (subst range_c.simps) simp
    have IH: "loop_run fr t z config bbox
           \<lparr>l_ctl = Outer_test, l_sample = \<lparr>s_x = x + c, s_y = 0\<rparr>, l_acc = a'\<rparr> =
         run_list (\<lambda>sx. run_list (\<lambda>sy. sample_body fr t z config \<lparr>s_x = sx, s_y = sy\<rparr>)
                      (range_c (s_y (lower_left bbox)) uy c))
           (range_c (x + c) ux c) a'"
      for a'
      using 1(1) [of a'] True 1(2-9) by simp
    show ?thesis
      using True 1(7)
      by (subst loop_run_outer)
         (simp add: r IH inner_loop_closed [OF 1(2) 1(3) 1(4) 1(5) 1(6) ci]
            cong: Option.bind_cong)
  next
    case False
    have r: "range_c x ux c = []"
      using False by (subst range_c.simps) simp
    show ?thesis
      using False 1(7) by (subst loop_run_outer) (simp add: r)
  qed
qed

text \<open>
  For a positive stride that cannot carry a counter past \<open>2^31\<close>, the run is the body on the
  samples of the box in the order of the loops.
\<close>

lemma rasterize_run_closed:
  assumes "0 < ss_i config"
    and "s_x (upper_right (get_bounding_box t screen config)) + ss_i config < 2 ^ 31"
    and "s_y (upper_right (get_bounding_box t screen config)) + ss_i config < 2 ^ 31"
    and "- (2 ^ 31) \<le> s_x (lower_left (get_bounding_box t screen config))"
    and "- (2 ^ 31) \<le> s_y (lower_left (get_bounding_box t screen config))"
  shows "rasterize_run fr t z screen config =
         run_list (sample_body fr t z config)
           (box_samples (get_bounding_box t screen config) (ss_i config))
           \<lparr>hit_count = 0, calls = []\<rparr>"
  unfolding rasterize_run_def entry_def box_samples_def Let_def
  using outer_loop_closed [OF assms(1) refl refl assms(3) assms(5) refl assms(2) assms(4),
      of fr t z "\<lparr>hit_count = 0, calls = []\<rparr>"]
  by (simp add: run_list_nested [where f = "\<lambda>sx sy. \<lparr>s_x = sx, s_y = sy\<rparr>"])

section \<open>Shared edges\<close>

lemma between_signs:
  fixes px py qx qy rx ry :: int
  assumes col: "px * qy - qx * py = 0"
    and opp: "px * qx + py * qy < 0"
    and area: "(qx * ry - rx * qy) + (rx * py - px * ry) < 0"
  shows "qx * ry - rx * qy < 0 \<and> rx * py - px * ry < 0"
proof -
  define N where "N = qx * qx + qy * qy"
  define D where "D = px * qx + py * qy"
  have "N * px - D * qx = qy * (px * qy - qx * py)"
    by (simp add: N_def D_def algebra_simps)
  then have ex: "N * px = D * qx" using col by simp
  have "N * py - D * qy = - (qx * (px * qy - qx * py))"
    by (simp add: N_def D_def algebra_simps)
  then have ey: "N * py = D * qy" using col by simp
  have "N * (rx * py - px * ry) = rx * (N * py) - ry * (N * px)"
    by (simp add: algebra_simps)
  also have "\<dots> = (- D) * (qx * ry - rx * qy)"
    unfolding ex ey by (simp add: algebra_simps)
  finally have key: "N * (rx * py - px * ry) = (- D) * (qx * ry - rx * qy)" .
  have D: "0 < - D" using opp by (simp add: D_def)
  have "\<not> (qx = 0 \<and> qy = 0)" using opp by auto
  then have "0 < qx * qx \<or> 0 < qy * qy"
    by (metis mult_eq_0_iff not_less_iff_gr_or_eq not_square_less_zero)
  moreover have "0 \<le> qx * qx" "0 \<le> qy * qy" by simp_all
  ultimately have N: "0 < N" unfolding N_def by linarith
  have first: "qx * ry - rx * qy < 0"
  proof (rule ccontr)
    assume "\<not> qx * ry - rx * qy < 0"
    then have a: "0 \<le> qx * ry - rx * qy" by simp
    then have "0 \<le> (- D) * (qx * ry - rx * qy)" using D by (intro mult_nonneg_nonneg) simp_all
    then have "0 \<le> N * (rx * py - px * ry)" by (simp only: key)
    then have "0 \<le> rx * py - px * ry" using N by (simp add: zero_le_mult_iff)
    then show False using a area by linarith
  qed
  then have "(- D) * (qx * ry - rx * qy) < 0" using D by (intro mult_pos_neg) simp_all
  then have "N * (rx * py - px * ry) < 0" by (simp only: key)
  then have "rx * py - px * ry < 0" using N by (simp add: mult_less_0_iff)
  then show ?thesis using first by simp
qed

lemma strictly_between_sym: "strictly_between s p q = strictly_between s q p"
  by (auto simp: strictly_between_def cross2_def dot2_def algebra_simps)

lemma shared_edge_test:
  assumes "i < 3" and "edge_of t i = (p, q)" and "strictly_between s p q" and "area2 t < 0"
  shows "covers t s \<longleftrightarrow> i \<noteq> 1"
proof -
  define ax where "ax = v_x (v0 t) - s_x s"
  define ay where "ay = v_y (v0 t) - s_y s"
  define bx where "bx = v_x (v1 t) - s_x s"
  define by' where "by' = v_y (v1 t) - s_y s"
  define cx where "cx = v_x (v2 t) - s_x s"
  define cy where "cy = v_y (v2 t) - s_y s"
  note d = ax_def ay_def bx_def by'_def cx_def cy_def
  have test: "covers t s \<longleftrightarrow>
      ax * by' - bx * ay \<le> 0 \<and> bx * cy - cx * by' < 0 \<and> cx * ay - ax * cy \<le> 0"
    by (simp add: covers_def cross2_def shifted_def d)
  have area: "(ax * by' - bx * ay) + (bx * cy - cx * by') + (cx * ay - ax * cy) = area2 t"
    by (simp add: area2_def cross2_def d algebra_simps)
  consider "i = 0" | "i = 1" | "i = 2" using assms(1) by linarith
  then show ?thesis
  proof cases
    case 1
    then have "p = (v_x (v0 t), v_y (v0 t))" "q = (v_x (v1 t), v_y (v1 t))"
      using assms(2) by (simp_all add: edge_of_def vertex_def pos_def)
    then have col: "ax * by' - bx * ay = 0" and opp: "ax * bx + ay * by' < 0"
      using assms(3) by (simp_all add: strictly_between_def cross2_def dot2_def d)
    have "(bx * cy - cx * by') + (cx * ay - ax * cy) < 0"
      using area col assms(4) by linarith
    from between_signs [OF col opp this] show ?thesis
      using 1 col by (simp add: test)
  next
    case 2
    then have "p = (v_x (v1 t), v_y (v1 t))" "q = (v_x (v2 t), v_y (v2 t))"
      using assms(2) by (simp_all add: edge_of_def vertex_def pos_def)
    then have "bx * cy - cx * by' = 0"
      using assms(3) by (simp_all add: strictly_between_def cross2_def dot2_def d)
    then show ?thesis using 2 by (simp add: test)
  next
    case 3
    then have "p = (v_x (v2 t), v_y (v2 t))" "q = (v_x (v0 t), v_y (v0 t))"
      using assms(2) by (simp_all add: edge_of_def vertex_def pos_def)
    then have col: "cx * ay - ax * cy = 0" and opp: "cx * ax + cy * ay < 0"
      using assms(3) by (simp_all add: strictly_between_def cross2_def dot2_def d)
    have "(ax * by' - bx * ay) + (bx * cy - cx * by') < 0"
      using area col assms(4) by linarith
    from between_signs [OF col opp this] show ?thesis
      using 3 col by (simp add: test)
  qed
qed

text \<open>
  Claim C5, as amended.  Two triangles of negative orientation (the orientation whose
  interior is covered) share an edge that they traverse in opposite directions.  If the
  shared edge is the edge \<open>1 \<rightarrow> 2\<close> of exactly one of them, then every sample strictly
  between the end points of the edge and within \<open>32767\<close> of all vertices of both
  triangles is covered by exactly one of the two triangles: the one for which it is the
  edge \<open>0 \<rightarrow> 1\<close> or \<open>2 \<rightarrow> 0\<close>.
\<close>

theorem shared_edge_partition:
  assumes "i < 3" and "j < 3"
    and "edge_of t1 i = (p, q)" and "edge_of t2 j = (q, p)"
    and "area2 t1 < 0" and "area2 t2 < 0"
    and "strictly_between s p q"
    and "(i = 1) \<noteq> (j = 1)"
    and "near t1 s" and "near t2 s"
  shows "sample_test t1 s \<noteq> sample_test t2 s \<and>
         sample_test t1 s = (i \<noteq> 1) \<and> sample_test t2 s = (j \<noteq> 1)"
proof -
  have "covers t1 s \<longleftrightarrow> i \<noteq> 1"
    using assms(1,3,7,5) by (rule shared_edge_test)
  then have "sample_test t1 s \<longleftrightarrow> i \<noteq> 1"
    by (simp only: sample_test_exact [OF assms(9)])
  moreover have "strictly_between s q p"
    using assms(7) by (simp only: strictly_between_sym)
  then have "covers t2 s \<longleftrightarrow> j \<noteq> 1"
    using assms(2,4) assms(6) by (intro shared_edge_test) simp_all
  then have "sample_test t2 s \<longleftrightarrow> j \<noteq> 1"
    by (simp only: sample_test_exact [OF assms(10)])
  ultimately show ?thesis using assms(8) by auto
qed


theorem shared_edge_partition_witness:
  "sample_test (tri (0, 0) (0, 32) (32, 0)) \<lparr>s_x = 0, s_y = 16\<rparr> \<and>
   \<not> sample_test (tri (- 32, 0) (0, 32) (0, 0)) \<lparr>s_x = 0, s_y = 16\<rparr>"
  using shared_edge_partition [of 0 1 "tri (0, 0) (0, 32) (32, 0)" "(0, 0)" "(0, 32)"
      "tri (- 32, 0) (0, 32) (0, 0)" "\<lparr>s_x = 0, s_y = 16\<rparr>"]
  by (simp add: edge_of_def vertex_def pos_def area2_def cross2_def dot2_def
      strictly_between_def near_def tri_def vtx_def)

text \<open>
  The claim as stated holds for no pair of edge positions but these.  The triangles
  \<open>(0,0), (0,32), (32,0)\<close> and \<open>(0,32), (0,0), (-32,0)\<close> have the same orientation and lie
  on the two sides of the segment from \<open>(0,0)\<close> to \<open>(0,32)\<close>, which is the edge \<open>0 \<rightarrow> 1\<close> of
  both, in opposite directions.  The sample \<open>(0, 16)\<close> on it is covered by both.
\<close>

theorem shared_edge_double_cover_counterexample:
  "edge_of (tri (0, 0) (0, 32) (32, 0)) 0 = ((0, 0), (0, 32)) \<and>
   edge_of (tri (0, 32) (0, 0) (- 32, 0)) 0 = ((0, 32), (0, 0)) \<and>
   area2 (tri (0, 0) (0, 32) (32, 0)) < 0 \<and>
   area2 (tri (0, 32) (0, 0) (- 32, 0)) < 0 \<and>
   on_segment \<lparr>s_x = 0, s_y = 16\<rparr> (0, 0) (0, 32) \<and>
   sample_test (tri (0, 0) (0, 32) (32, 0)) \<lparr>s_x = 0, s_y = 16\<rparr> \<and>
   sample_test (tri (0, 32) (0, 0) (- 32, 0)) \<lparr>s_x = 0, s_y = 16\<rparr>"
  by (simp add: edge_of_def vertex_def pos_def area2_def cross2_def dot2_def
      on_segment_def sample_test_def wrap32_def tri_def vtx_def Let_def)

section \<open>The samples of a box\<close>

lemma range_c_set:
  assumes "0 < step"
  shows "set (range_c i hi step) = {v. i \<le> v \<and> v \<le> hi \<and> step dvd (v - i)}"
  using assms
proof (induction i hi step rule: range_c.induct)
  case (1 i hi step)
  show ?case
  proof (cases "i \<le> hi")
    case True
    have IH: "set (range_c (i + step) hi step) =
                {v. i + step \<le> v \<and> v \<le> hi \<and> step dvd (v - (i + step))}"
      using 1 True by simp
    have d: "step dvd (v - (i + step)) \<longleftrightarrow> step dvd (v - i)" for v
    proof -
      have "v - i = (v - (i + step)) + step" by simp
      then show ?thesis by (metis dvd_add_left_iff dvd_refl)
    qed
    have far: "i + step \<le> v" if "i < v" "step dvd (v - i)" for v
    proof -
      have "step \<le> v - i" using that by (intro zdvd_imp_le) simp_all
      then show ?thesis by simp
    qed
    have "set (range_c i hi step) = insert i (set (range_c (i + step) hi step))"
      using True 1(2) by (subst range_c.simps) simp
    also have "\<dots> = {v. i \<le> v \<and> v \<le> hi \<and> step dvd (v - i)}"
      unfolding IH d using True 1(2) far by (auto simp: order_le_less)
    finally show ?thesis .
  next
    case False
    then show ?thesis by (subst range_c.simps) auto
  qed
qed

lemma range_c_distinct: "distinct (range_c i hi step)"
proof (induction i hi step rule: range_c.induct)
  case (1 i hi step)
  show ?case
  proof (cases "i \<le> hi \<and> 0 < step")
    case True
    then have "i \<notin> set (range_c (i + step) hi step)"
      by (simp add: range_c_set)
    then show ?thesis
      using True 1 by (subst range_c.simps) simp
  next
    case False
    then show ?thesis by (subst range_c.simps) auto
  qed
qed

lemma box_samples_set:
  "set (box_samples bbox step) =
     {s. s_x s \<in> set (range_c (s_x (lower_left bbox)) (s_x (upper_right bbox)) step) \<and>
         s_y s \<in> set (range_c (s_y (lower_left bbox)) (s_y (upper_right bbox)) step)}"
  (is "?L = ?R")
proof (intro set_eqI iffI)
  fix s assume "s \<in> ?L"
  then show "s \<in> ?R" by (auto simp: box_samples_def)
next
  fix s assume "s \<in> ?R"
  then show "s \<in> ?L"
    unfolding box_samples_def by (cases s) auto
qed

lemma distinct_grid:
  assumes "distinct as" and "distinct bs"
    and "\<And>a b a' b'. f a b = f a' b' \<Longrightarrow> a = a' \<and> b = b'"
  shows "distinct (concat (map (\<lambda>a. map (f a) bs) as))"
  using assms(1)
proof (induction as)
  case Nil
  show ?case by simp
next
  case (Cons a as)
  have "distinct (map (f a) bs)"
    using assms(2,3) by (auto simp: distinct_map inj_on_def)
  moreover have "set (map (f a) bs) \<inter> set (concat (map (\<lambda>a. map (f a) bs) as)) = {}"
    using Cons.prems assms(3) by fastforce
  ultimately show ?case
    using Cons by simp
qed

lemma box_samples_distinct: "distinct (box_samples bbox step)"
  unfolding box_samples_def
  by (rule distinct_grid) (simp_all add: range_c_distinct)




lemma range_c_empty: "hi < i \<Longrightarrow> range_c i hi step = []"
  by (subst range_c.simps) simp

lemma box_samples_empty:
  assumes "s_x (upper_right bbox) < s_x (lower_left bbox) \<or>
           s_y (upper_right bbox) < s_y (lower_left bbox)"
  shows "box_samples bbox step = []"
  using assms by (auto simp: box_samples_def range_c_empty)

lemma floor_ss_le:
  assumes "0 \<le> ssw" and "ssw \<le> rs" and "rs < 32"
  shows "floor_ss val rs ssw \<le> val"
proof -
  have "0 \<le> val mod 2 ^ nat (rs - ssw)" by simp
  then show ?thesis using assms by (simp add: floor_ss_eq)
qed


lemma dvd_from_diff:
  fixes d a b :: int
  assumes "d dvd a" and "d dvd b - a"
  shows "d dvd b"
proof -
  have "d dvd (b - a) + a" using assms by (intro dvd_add) simp_all
  then show ?thesis by simp
qed

lemma range_c_length: "length (range_c i hi step) \<le> nat (hi - i + 1)"
proof (induction i hi step rule: range_c.induct)
  case (1 i hi step)
  show ?case
  proof (cases "i \<le> hi \<and> 0 < step")
    case True
    then have "length (range_c i hi step) = Suc (length (range_c (i + step) hi step))"
      by (subst range_c.simps) simp
    also have "\<dots> \<le> Suc (nat (hi - (i + step) + 1))"
      using 1 True by simp
    also have "\<dots> \<le> nat (hi - i + 1)"
      using True by linarith
    finally show ?thesis .
  next
    case False
    then show ?thesis by (subst range_c.simps) auto
  qed
qed

lemma grid_length: "length (concat (map (\<lambda>a. map (f a) bs) as)) = length as * length bs"
  by (induction as) simp_all

lemma box_samples_length:
  "length (box_samples bbox step) \<le>
     nat (s_x (upper_right bbox) - s_x (lower_left bbox) + 1) *
     nat (s_y (upper_right bbox) - s_y (lower_left bbox) + 1)"
  unfolding box_samples_def grid_length
  by (intro mult_le_mono range_c_length)

section \<open>Covered samples lie in the bounding box\<close>

lemma cross_identity:
  fixes ax ay bx by' cx cy :: int
  shows "(bx * cy - cx * by') * ax + (cx * ay - ax * cy) * bx + (ax * by' - bx * ay) * cx = 0"
  by (simp add: algebra_simps)

lemma convex_sign:
  fixes a b c u v w :: int
  assumes "a * u + b * v + c * w = 0" and "0 < a" and "0 \<le> b" and "0 \<le> c"
  shows "min u (min v w) \<le> 0 \<and> 0 \<le> max u (max v w)"
proof -
  have "\<not> (0 < u \<and> 0 < v \<and> 0 < w)"
  proof
    assume h: "0 < u \<and> 0 < v \<and> 0 < w"
    then have "0 < a * u" "0 \<le> b * v" "0 \<le> c * w"
      using assms by simp_all
    then show False using assms(1) by linarith
  qed
  moreover have "\<not> (u < 0 \<and> v < 0 \<and> w < 0)"
  proof
    assume h: "u < 0 \<and> v < 0 \<and> w < 0"
    then have "a * u < 0" "b * v \<le> 0" "c * w \<le> 0"
      using assms by (simp_all add: mult_pos_neg mult_nonneg_nonpos)
    then show False using assms(1) by linarith
  qed
  ultimately show ?thesis by (auto simp: min_def max_def)
qed

lemma covers_in_box:
  assumes "covers t s"
  shows "min_c (min_c (v_x (v0 t)) (v_x (v1 t))) (v_x (v2 t)) \<le> s_x s \<and>
         s_x s \<le> max_c (max_c (v_x (v0 t)) (v_x (v1 t))) (v_x (v2 t)) \<and>
         min_c (min_c (v_y (v0 t)) (v_y (v1 t))) (v_y (v2 t)) \<le> s_y s \<and>
         s_y s \<le> max_c (max_c (v_y (v0 t)) (v_y (v1 t))) (v_y (v2 t))"
proof -
  define ax where "ax = v_x (v0 t) - s_x s"
  define ay where "ay = v_y (v0 t) - s_y s"
  define bx where "bx = v_x (v1 t) - s_x s"
  define by' where "by' = v_y (v1 t) - s_y s"
  define cx where "cx = v_x (v2 t) - s_x s"
  define cy where "cy = v_y (v2 t) - s_y s"
  define a where "a = - (bx * cy - cx * by')"
  define b where "b = - (cx * ay - ax * cy)"
  define c where "c = - (ax * by' - bx * ay)"
  have signs: "0 < a" "0 \<le> b" "0 \<le> c"
    using assms
    by (simp_all add: covers_def cross2_def shifted_def a_def b_def c_def ax_def ay_def bx_def
        by'_def cx_def cy_def)
  have ex: "a * ax + b * bx + c * cx = 0"
    unfolding a_def b_def c_def by (simp add: algebra_simps)
  have ey: "a * ay + b * by' + c * cy = 0"
    unfolding a_def b_def c_def by (simp add: algebra_simps)
  have "min ax (min bx cx) \<le> 0 \<and> 0 \<le> max ax (max bx cx)"
    using convex_sign [OF ex signs] .
  moreover have "min ay (min by' cy) \<le> 0 \<and> 0 \<le> max ay (max by' cy)"
    using convex_sign [OF ey signs] .
  ultimately show ?thesis
    unfolding ax_def ay_def bx_def by'_def cx_def cy_def min_c_def max_c_def min_def max_def
    by (auto split: if_splits)
qed

section \<open>The grid of the screen\<close>

lemma multiples_set:
  assumes "0 < c"
  shows "(\<lambda>i. i * c) ` {0 .. w div c} = {v::int. 0 \<le> v \<and> v \<le> w \<and> c dvd v}"
proof (intro set_eqI iffI)
  fix v assume "v \<in> (\<lambda>i. i * c) ` {0 .. w div c}"
  then obtain i where "v = i * c" "i \<in> {0 .. w div c}" by blast
  then have i: "v = i * c" "0 \<le> i" "i \<le> w div c" by simp_all
  have "i * c \<le> (w div c) * c" using i(3) assms by (intro mult_right_mono) simp_all
  moreover have "w = (w div c) * c + w mod c" by simp
  moreover have "0 \<le> w mod c" using assms by simp
  ultimately have "i * c \<le> w" by linarith
  then show "v \<in> {v. 0 \<le> v \<and> v \<le> w \<and> c dvd v}"
    using i assms by simp
next
  fix v assume "v \<in> {v. 0 \<le> v \<and> v \<le> w \<and> c dvd v}"
  then have v: "0 \<le> v" "v \<le> w" "c dvd v" by simp_all
  then have "v = (v div c) * c" by simp
  moreover have "0 \<le> v div c" using v(1) assms by (simp add: pos_imp_zdiv_nonneg_iff)
  moreover have "v div c \<le> w div c" using v(2) assms by (intro zdiv_mono1) simp_all
  ultimately show "v \<in> (\<lambda>i. i * c) ` {0 .. w div c}"
    by (intro image_eqI [where x = "v div c"]) simp_all
qed

lemma screen_grid_set:
  assumes "0 < ss_i config"
  shows "set (screen_grid screen config) =
           {s. 0 \<le> s_x s \<and> s_x s \<le> width screen \<and> ss_i config dvd s_x s \<and>
               0 \<le> s_y s \<and> s_y s \<le> height screen \<and> ss_i config dvd s_y s}"
  (is "?L = ?R")
proof (intro set_eqI iffI)
  fix s assume "s \<in> ?L"
  then obtain i j where "i \<in> {0 .. width screen div ss_i config}"
    "j \<in> {0 .. height screen div ss_i config}"
    "s = \<lparr>s_x = i * ss_i config, s_y = j * ss_i config\<rparr>"
    by (auto simp: screen_grid_def)
  then have "s_x s = i * ss_i config \<and> i \<in> {0 .. width screen div ss_i config}"
    "s_y s = j * ss_i config \<and> j \<in> {0 .. height screen div ss_i config}"
    by simp_all
  then have "s_x s \<in> (\<lambda>i. i * ss_i config) ` {0 .. width screen div ss_i config}"
    "s_y s \<in> (\<lambda>i. i * ss_i config) ` {0 .. height screen div ss_i config}"
    by blast+
  then show "s \<in> ?R"
    unfolding multiples_set [OF assms] by simp
next
  fix s assume "s \<in> ?R"
  then have "s_x s \<in> (\<lambda>i. i * ss_i config) ` {0 .. width screen div ss_i config}"
    "s_y s \<in> (\<lambda>i. i * ss_i config) ` {0 .. height screen div ss_i config}"
    unfolding multiples_set [OF assms] by simp_all
  then obtain i j where ij: "i \<in> {0 .. width screen div ss_i config}"
    "j \<in> {0 .. height screen div ss_i config}"
    "s_x s = i * ss_i config" "s_y s = j * ss_i config"
    by blast
  have "\<lparr>s_x = i * ss_i config, s_y = j * ss_i config\<rparr> \<in>
          (\<Union>i \<in> {0 .. width screen div ss_i config}.
             (\<lambda>j. \<lparr>s_x = i * ss_i config, s_y = j * ss_i config\<rparr>) `
               {0 .. height screen div ss_i config})"
    using ij(1,2) by blast
  moreover have "s = \<lparr>s_x = i * ss_i config, s_y = j * ss_i config\<rparr>"
    using ij(3,4) by simp
  ultimately show "s \<in> ?L"
    unfolding screen_grid_def by simp
qed

lemma screen_grid_distinct:
  assumes "0 < ss_i config"
  shows "distinct (screen_grid screen config)"
  unfolding screen_grid_def
  using assms by (intro distinct_grid) simp_all

lemma count_distinct: "distinct xs \<Longrightarrow> length (filter P xs) = card {x \<in> set xs. P x}"
  by (metis distinct_card distinct_filter set_filter)

lemma multiple_le_floor:
  fixes c v m :: int
  assumes "0 < c" and "c dvd v" and "v \<le> m"
  shows "v \<le> m - m mod c"
proof -
  have "v div c \<le> m div c" using assms by (intro zdiv_mono1) simp_all
  then have "c * (v div c) \<le> c * (m div c)" using assms(1) by (intro mult_left_mono) simp_all
  moreover have "c * (v div c) = v" using assms(2) by simp
  moreover have "c * (m div c) = m - m mod c" by (simp add: minus_mod_eq_mult_div)
  ultimately show ?thesis by simp
qed

section \<open>The walk over the box against the brute-force reference\<close>

lemma box_hits_eq_screen_hits:
  assumes "0 \<le> ss_w_lg2 config" and "ss_w_lg2 config \<le> r_shift config"
    and "r_shift config < 32"
    and "ss_i config = 2 ^ nat (r_shift config - ss_w_lg2 config)"
  shows "{s \<in> set (box_samples (get_bounding_box t screen config) (ss_i config)). covers t s} =
         {s \<in> set (screen_grid screen config). covers t s}"
  (is "?B = ?G")
proof -
  define c where "c = ss_i config"
  define k where "k = nat (r_shift config - ss_w_lg2 config)"
  have c: "0 < c" "c = 2 ^ k" by (simp_all add: c_def k_def assms(4))
  define lox where "lox = min_c (min_c (v_x (v0 t)) (v_x (v1 t))) (v_x (v2 t))"
  define hix where "hix = max_c (max_c (v_x (v0 t)) (v_x (v1 t))) (v_x (v2 t))"
  define loy where "loy = min_c (min_c (v_y (v0 t)) (v_y (v1 t))) (v_y (v2 t))"
  define hiy where "hiy = max_c (max_c (v_y (v0 t)) (v_y (v1 t))) (v_y (v2 t))"
  have fl: "floor_ss val (r_shift config) (ss_w_lg2 config) = val - val mod c" for val
    using assms(1-3) by (simp add: floor_ss_eq c k_def)
  have corners:
    "s_x (lower_left (get_bounding_box t screen config)) = max_c (lox - lox mod c) 0"
    "s_y (lower_left (get_bounding_box t screen config)) = max_c (loy - loy mod c) 0"
    "s_x (upper_right (get_bounding_box t screen config)) = min_c (hix - hix mod c) (width screen)"
    "s_y (upper_right (get_bounding_box t screen config)) = min_c (hiy - hiy mod c) (height screen)"
    by (simp_all add: get_bounding_box_corners snapped_box_corners fl lox_def hix_def loy_def hiy_def)
  have fdvd: "c dvd val - val mod c" for val
    by (simp add: minus_mod_eq_mult_div)
  have fle: "val - val mod c \<le> val" for val
    using c(1) by simp
  have lodvd: "c dvd max_c (val - val mod c) 0" for val
    using fdvd [of val] by (simp add: max_c_def)
  have inbox: "s \<in> set (box_samples (get_bounding_box t screen config) c) \<longleftrightarrow>
                 max_c (lox - lox mod c) 0 \<le> s_x s \<and> s_x s \<le> min_c (hix - hix mod c) (width screen) \<and>
                 c dvd s_x s - max_c (lox - lox mod c) 0 \<and>
                 max_c (loy - loy mod c) 0 \<le> s_y s \<and> s_y s \<le> min_c (hiy - hiy mod c) (height screen) \<and>
                 c dvd s_y s - max_c (loy - loy mod c) 0" for s
    by (simp add: box_samples_set range_c_set [OF c(1)] corners)
  have ingrid: "s \<in> set (screen_grid screen config) \<longleftrightarrow>
                  0 \<le> s_x s \<and> s_x s \<le> width screen \<and> c dvd s_x s \<and>
                  0 \<le> s_y s \<and> s_y s \<le> height screen \<and> c dvd s_y s" for s
    using c(1) by (simp add: screen_grid_set c_def)
  have dv: "c dvd v - max_c (val - val mod c) 0 \<longleftrightarrow> c dvd v" for v val
    using lodvd [of val] by (metis dvd_diff dvd_from_diff)
  show ?thesis
  proof (intro set_eqI iffI)
    fix s assume "s \<in> ?B"
    then have b: "s \<in> set (box_samples (get_bounding_box t screen config) c)" and p: "covers t s"
      by (simp_all add: c_def)
    have "0 \<le> s_x s" "s_x s \<le> width screen" "0 \<le> s_y s" "s_y s \<le> height screen"
      using b unfolding inbox by (auto simp: max_c_def min_c_def split: if_splits)
    moreover have "c dvd s_x s" "c dvd s_y s"
      using b unfolding inbox dv by simp_all
    ultimately show "s \<in> ?G" using p by (simp add: ingrid)
  next
    fix s assume "s \<in> ?G"
    then have g: "0 \<le> s_x s" "s_x s \<le> width screen" "c dvd s_x s"
                 "0 \<le> s_y s" "s_y s \<le> height screen" "c dvd s_y s"
      and p: "covers t s"
      by (simp_all add: ingrid)
    have tight: "lox \<le> s_x s" "s_x s \<le> hix" "loy \<le> s_y s" "s_y s \<le> hiy"
      using covers_in_box [OF p] by (simp_all add: lox_def hix_def loy_def hiy_def)
    have "s_x s \<le> hix - hix mod c" "s_y s \<le> hiy - hiy mod c"
      using multiple_le_floor [OF c(1)] g(3,6) tight(2,4) by simp_all
    moreover have "lox - lox mod c \<le> s_x s" "loy - loy mod c \<le> s_y s"
      using fle [of lox] fle [of loy] tight(1,3) by linarith+
    ultimately have "s \<in> set (box_samples (get_bounding_box t screen config) c)"
      unfolding inbox dv using g by (simp add: max_c_def min_c_def)
    then show "s \<in> ?B" using p by (simp add: c_def)
  qed
qed
section \<open>Runs that return\<close>

lemma hits_Cons:
  "hits fr t config (s # samples) =
     (if is_hit fr t config s then s # hits fr t config samples else hits fr t config samples)"
  by (simp add: hits_def)

lemma run_list_sample_body:
  assumes "harmless fr" and "ss_i config \<noteq> 0 \<or> z = None"
  shows "c_int (hit_count st) \<Longrightarrow>
         run_list (sample_body fr t z config) samples st =
           Some \<lparr>hit_count = wrap32 (hit_count st + int (length (hits fr t config samples))),
                 calls = calls st @ (if z \<noteq> None then map (call_for t config) (hits fr t config samples)
                                     else [])\<rparr>"
proof (induction samples arbitrary: st)
  case Nil
  then show ?case by (simp add: hits_def wrap32_id)
next
  case (Cons s samples)
  show ?case
  proof (cases "is_hit fr t config s")
    case True
    define st' where "st' = st\<lparr>hit_count := wrap32 (hit_count st + 1),
        calls := calls st @ (if z \<noteq> None then [call_for t config s] else [])\<rparr>"
    have c: "c_int (hit_count st')" by (simp add: st'_def wrap32_c_int)
    have w: "wrap32 (hit_count st' + int (length (hits fr t config samples))) =
             wrap32 (hit_count st + int (length (hits fr t config (s # samples))))"
      using True by (simp add: st'_def wrap32_add_left hits_Cons algebra_simps)
    have "run_list (sample_body fr t z config) (s # samples) st =
          run_list (sample_body fr t z config) samples st'"
      using True by (simp add: sample_body_harmless [OF assms] st'_def)
    also have "\<dots> = Some \<lparr>hit_count = wrap32 (hit_count st' + int (length (hits fr t config samples))),
                 calls = calls st' @ (if z \<noteq> None then map (call_for t config) (hits fr t config samples)
                                      else [])\<rparr>"
      using c by (rule Cons.IH)
    finally show ?thesis
      unfolding w using True by (simp add: st'_def hits_Cons)
  next
    case False
    then show ?thesis
      using Cons by (simp add: sample_body_harmless [OF assms] hits_Cons)
  qed
qed

text \<open>
  The clipped box starts at a non-negative corner and ends on the screen.
\<close>

lemma lower_left_nonneg:
  "0 \<le> s_x (lower_left (get_bounding_box t screen config))"
  "0 \<le> s_y (lower_left (get_bounding_box t screen config))"
  by (simp_all add: get_bounding_box_corners max_c_def)

lemma upper_right_on_screen:
  "s_x (upper_right (get_bounding_box t screen config)) \<le> width screen"
  "s_y (upper_right (get_bounding_box t screen config)) \<le> height screen"
  by (simp_all add: get_bounding_box_corners min_c_def)

text \<open>
  The run in closed form: for a positive stride that cannot carry a counter past \<open>2^31\<close> and
  a frame in which the stores of \<^verbatim>\<open>jitter_sample\<close> do no harm, the run returns, with the
  number of hits among the samples of the box (as an \<^verbatim>\<open>int\<close>) and one call for each hit.
\<close>

lemma rasterize_run_returns:
  assumes "harmless fr" and "0 < ss_i config"
    and "width screen + ss_i config < 2 ^ 31" and "height screen + ss_i config < 2 ^ 31"
  shows "rasterize_run fr t z screen config =
           Some \<lparr>hit_count = wrap32 (int (length (hits fr t config
                                (box_samples (get_bounding_box t screen config) (ss_i config))))),
                 calls = (if z \<noteq> None
                          then map (call_for t config) (hits fr t config
                                (box_samples (get_bounding_box t screen config) (ss_i config)))
                          else [])\<rparr>"
proof -
  have x: "s_x (upper_right (get_bounding_box t screen config)) + ss_i config < 2 ^ 31"
    using upper_right_on_screen(1) [of t screen config] assms(3) by linarith
  have y: "s_y (upper_right (get_bounding_box t screen config)) + ss_i config < 2 ^ 31"
    using upper_right_on_screen(2) [of t screen config] assms(4) by linarith
  have lx: "- (2 ^ 31) \<le> s_x (lower_left (get_bounding_box t screen config))"
    by (rule order_trans [OF _ lower_left_nonneg(1)]) simp
  have ly: "- (2 ^ 31) \<le> s_y (lower_left (get_bounding_box t screen config))"
    by (rule order_trans [OF _ lower_left_nonneg(2)]) simp
  have nz: "ss_i config \<noteq> 0 \<or> z = None" using assms(2) by simp
  show ?thesis
    unfolding rasterize_run_closed [OF assms(2) x y lx ly]
    by (subst run_list_sample_body [OF assms(1) nz]) (simp_all add: c_int_def)
qed

lemma rasterize_triangle_returns:
  assumes "harmless fr" and "0 < ss_i config"
    and "width screen + ss_i config < 2 ^ 31" and "height screen + ss_i config < 2 ^ 31"
  shows "rasterize_triangle fr t z screen config =
           Some (wrap32 (int (length (hits fr t config
                   (box_samples (get_bounding_box t screen config) (ss_i config))))))"
  by (simp add: rasterize_triangle_def rasterize_run_returns [OF assms])

section \<open>Runs that do not return\<close>

lemma wrap32_le: "- (2 ^ 31) \<le> x \<Longrightarrow> wrap32 x \<le> x"
proof -
  assume "- (2 ^ 31) \<le> x"
  then have "0 \<le> x + 2 ^ 31" by simp
  then have "(x + 2 ^ 31) mod 2 ^ 32 \<le> x + 2 ^ 31"
    by (rule zmod_le_nonneg_dividend)
  then show ?thesis by (simp add: wrap32_def)
qed

text \<open>
  With the stride \<open>0\<close> the outer counter does not get past the box: once the outer loop is
  entered, the run does not leave it.
\<close>

lemma zero_stride_never:
  assumes "ss_i config = 0"
    and "- (2 ^ 31) \<le> s_x (lower_left bbox)"
    and "s_x (lower_left bbox) \<le> s_x (upper_right bbox)"
  shows "loop_run fr t z config bbox (entry bbox) = None"
proof (rule loop_run_never [where I = "\<lambda>ls. l_ctl ls \<noteq> Returned \<and>
          - (2 ^ 31) \<le> s_x (l_sample ls) \<and> s_x (l_sample ls) \<le> s_x (upper_right bbox)"])
  show "l_ctl (entry bbox) \<noteq> Returned \<and> - (2 ^ 31) \<le> s_x (l_sample (entry bbox)) \<and>
        s_x (l_sample (entry bbox)) \<le> s_x (upper_right bbox)"
    using assms(2,3) by (simp add: entry_def)
next
  fix a b
  assume I: "l_ctl a \<noteq> Returned \<and> - (2 ^ 31) \<le> s_x (l_sample a) \<and>
             s_x (l_sample a) \<le> s_x (upper_right bbox)"
    and s: "loop_step fr t z config bbox a = Some b"
  have w: "wrap32 (s_x (l_sample a)) \<le> s_x (upper_right bbox)"
    using wrap32_le [of "s_x (l_sample a)"] I by linarith
  have l: "- (2 ^ 31) \<le> wrap32 (s_x (l_sample a))"
    using wrap32_c_int [of "s_x (l_sample a)"] by (simp add: c_int_def)
  show "l_ctl b \<noteq> Returned \<and> - (2 ^ 31) \<le> s_x (l_sample b) \<and>
        s_x (l_sample b) \<le> s_x (upper_right bbox)"
  proof (cases "l_ctl a")
    case Outer_test
    then show ?thesis
      using I s by (auto simp: loop_step_def)
  next
    case Inner_test
    then show ?thesis
      using I s w l assms(1)
      by (auto simp: loop_step_def bind_eq_Some_conv split: if_splits)
  next
    case Returned
    then show ?thesis using I by simp
  qed
next
  fix a
  assume "l_ctl a \<noteq> Returned \<and> - (2 ^ 31) \<le> s_x (l_sample a) \<and>
          s_x (l_sample a) \<le> s_x (upper_right bbox)"
  then show "l_ctl a \<noteq> Returned" by simp
qed

section \<open>Boxes off the screen\<close>

lemma off_screen_box:
  assumes "no_overlap (snapped_box t config) screen \<or>
           (0 \<le> ss_w_lg2 config \<and> ss_w_lg2 config \<le> r_shift config \<and> r_shift config < 32 \<and>
            v_x (v0 t) < 0 \<and> v_x (v1 t) < 0 \<and> v_x (v2 t) < 0)"
  shows "valid (get_bounding_box t screen config) = False"
    and "s_x (upper_right (get_bounding_box t screen config))
           < s_x (lower_left (get_bounding_box t screen config)) \<or>
         s_y (upper_right (get_bounding_box t screen config))
           < s_y (lower_left (get_bounding_box t screen config))"
proof -
  have off: "no_overlap (snapped_box t config) screen"
  proof (rule disjE [OF assms])
    assume "no_overlap (snapped_box t config) screen"
    then show ?thesis .
  next
    assume a: "0 \<le> ss_w_lg2 config \<and> ss_w_lg2 config \<le> r_shift config \<and> r_shift config < 32 \<and>
               v_x (v0 t) < 0 \<and> v_x (v1 t) < 0 \<and> v_x (v2 t) < 0"
    then have "max_c (max_c (v_x (v0 t)) (v_x (v1 t))) (v_x (v2 t)) < 0"
      by (simp add: max_c_def)
    moreover have "floor_ss (max_c (max_c (v_x (v0 t)) (v_x (v1 t))) (v_x (v2 t)))
                     (r_shift config) (ss_w_lg2 config)
                   \<le> max_c (max_c (v_x (v0 t)) (v_x (v1 t))) (v_x (v2 t))"
      using a by (intro floor_ss_le) simp_all
    ultimately show ?thesis
      by (simp add: no_overlap_def snapped_box_corners)
  qed
  show "valid (get_bounding_box t screen config) = False"
    using off by (auto simp: valid_after_clip no_overlap_def min_c_def max_c_def)
  show "s_x (upper_right (get_bounding_box t screen config))
           < s_x (lower_left (get_bounding_box t screen config)) \<or>
         s_y (upper_right (get_bounding_box t screen config))
           < s_y (lower_left (get_bounding_box t screen config))"
    using off by (auto simp: get_bounding_box_corners no_overlap_def min_c_def max_c_def)
qed

text \<open>Over an empty box no state that the run reaches is about to run the body.\<close>

lemma empty_box_no_body:
  assumes "s_x (upper_right bbox) < s_x (lower_left bbox) \<or>
           s_y (upper_right bbox) < s_y (lower_left bbox)"
    and "loop_steps fr t z config bbox n (entry bbox) = Some ls"
  shows "\<not> at_body bbox ls \<and> l_acc ls = \<lparr>hit_count = 0, calls = []\<rparr>"
proof -
  define I where "I = (\<lambda>ls :: loop_state. l_acc ls = \<lparr>hit_count = 0, calls = []\<rparr> \<and>
      (l_ctl ls = Inner_test \<longrightarrow> s_y (l_sample ls) = s_y (lower_left bbox)) \<and>
      (s_x (upper_right bbox) < s_x (lower_left bbox) \<longrightarrow>
         l_ctl ls \<noteq> Inner_test \<and>
         (l_ctl ls = Outer_test \<longrightarrow> s_x (l_sample ls) = s_x (lower_left bbox))))"
  have start: "I (entry bbox)" by (simp add: I_def entry_def)
  have keep: "I b" if "I a" and "loop_step fr t z config bbox a = Some b" for a b
  proof (cases "l_ctl a")
    case Outer_test
    then show ?thesis
      using that by (auto simp: I_def loop_step_def split: if_splits)
  next
    case Inner_test
    then have "s_y (l_sample a) = s_y (lower_left bbox)"
      and "\<not> s_x (upper_right bbox) < s_x (lower_left bbox)"
      using that(1) by (auto simp: I_def)
    then have "s_y (upper_right bbox) < s_y (l_sample a)"
      and "\<not> s_x (upper_right bbox) < s_x (lower_left bbox)"
      using assms(1) by auto
    then show ?thesis
      using that Inner_test by (auto simp: I_def loop_step_def)
  next
    case Returned
    then show ?thesis
      using that by (auto simp: I_def loop_step_def)
  qed
  have "I ls"
    using assms(2) start keep by (rule loop_steps_invariant)
  then show ?thesis
    using assms(1) by (auto simp: I_def at_body_def)
qed

text \<open>
  Claim C6, as amended.  With a positive stride that cannot carry a counter past \<open>2^31\<close>:
  when the snapped box does not overlap the screen (in particular when all three vertices
  have a negative \<open>x\<close> and the shift is in range), the box is flagged invalid, the clipped
  lower-left corner exceeds the clipped upper-right corner on an axis, no state of the run
  is about to run the body of the nested loop, and the call returns the hit count \<open>0\<close>
  without any fragment.
\<close>

theorem off_screen_no_hits:
  assumes "0 < ss_i config"
    and "width screen + ss_i config < 2 ^ 31" and "height screen + ss_i config < 2 ^ 31"
    and "no_overlap (snapped_box t config) screen \<or>
         (0 \<le> ss_w_lg2 config \<and> ss_w_lg2 config \<le> r_shift config \<and> r_shift config < 32 \<and>
          v_x (v0 t) < 0 \<and> v_x (v1 t) < 0 \<and> v_x (v2 t) < 0)"
  shows "valid (get_bounding_box t screen config) = False \<and>
         (s_x (upper_right (get_bounding_box t screen config))
            < s_x (lower_left (get_bounding_box t screen config)) \<or>
          s_y (upper_right (get_bounding_box t screen config))
            < s_y (lower_left (get_bounding_box t screen config))) \<and>
         (\<forall>n ls. rasterize_steps fr t z screen config n = Some ls \<longrightarrow>
                 \<not> at_body (get_bounding_box t screen config) ls) \<and>
         rasterize_run fr t z screen config = Some \<lparr>hit_count = 0, calls = []\<rparr> \<and>
         rasterize_triangle fr t z screen config = Some 0"
proof -
  define bbox where "bbox = get_bounding_box t screen config"
  have empty: "s_x (upper_right bbox) < s_x (lower_left bbox) \<or>
               s_y (upper_right bbox) < s_y (lower_left bbox)"
    unfolding bbox_def using assms(4) by (rule off_screen_box(2))
  have none: "box_samples bbox (ss_i config) = []"
    using empty by (rule box_samples_empty)
  have x: "s_x (upper_right bbox) + ss_i config < 2 ^ 31"
    using upper_right_on_screen(1) [of t screen config] assms(2) unfolding bbox_def by linarith
  have y: "s_y (upper_right bbox) + ss_i config < 2 ^ 31"
    using upper_right_on_screen(2) [of t screen config] assms(3) unfolding bbox_def by linarith
  have lx: "- (2 ^ 31) \<le> s_x (lower_left bbox)"
    unfolding bbox_def by (rule order_trans [OF _ lower_left_nonneg(1)]) simp
  have ly: "- (2 ^ 31) \<le> s_y (lower_left bbox)"
    unfolding bbox_def by (rule order_trans [OF _ lower_left_nonneg(2)]) simp
  have run: "rasterize_run fr t z screen config = Some \<lparr>hit_count = 0, calls = []\<rparr>"
    using rasterize_run_closed [of config t screen fr z, OF assms(1)] x y lx ly none
    by (simp add: bbox_def)
  have body: "\<not> at_body bbox ls" if "rasterize_steps fr t z screen config n = Some ls" for n ls
    using empty_box_no_body [OF empty, of fr t z config n ls] that
    by (simp add: rasterize_steps_def bbox_def Let_def)
  show ?thesis
    using off_screen_box(1) [OF assms(4)] empty body run
    by (simp add: bbox_def rasterize_triangle_def)
qed

theorem off_screen_no_hits_witness:
  "valid (get_bounding_box (tri (- 40, 8) (- 8, 8) (- 8, 40)) \<lparr>width = 64, height = 64\<rparr>
            \<lparr>r_shift = 4, ss_w_lg2 = 0, ss_i = 16\<rparr>) = False \<and>
   rasterize_run apart_frame (tri (- 40, 8) (- 8, 8) (- 8, 40)) (Some ())
      \<lparr>width = 64, height = 64\<rparr> \<lparr>r_shift = 4, ss_w_lg2 = 0, ss_i = 16\<rparr> =
        Some \<lparr>hit_count = 0, calls = []\<rparr> \<and>
   rasterize_triangle apart_frame (tri (- 40, 8) (- 8, 8) (- 8, 40)) (Some ())
      \<lparr>width = 64, height = 64\<rparr> \<lparr>r_shift = 4, ss_w_lg2 = 0, ss_i = 16\<rparr> = Some 0"
  using off_screen_no_hits [of "\<lparr>r_shift = 4, ss_w_lg2 = 0, ss_i = 16\<rparr>"
      "\<lparr>width = 64, height = 64\<rparr>" "tri (- 40, 8) (- 8, 8) (- 8, 40)" apart_frame "Some ()"]
  by (simp add: tri_def vtx_def)

text \<open>
  The claim as stated asks for no stride.  The snapped box of the triangle
  \<open>(0,-32), (16,-32), (0,-16)\<close> lies below the screen, and the clipped box has
  \<open>lower_left = (0, 0)\<close> and \<open>upper_right = (16, -16)\<close>: the outer loop is entered and the
  inner loop is not.  With the stride \<open>0\<close> the outer counter stays at \<open>0\<close>, and the call does
  not return.
\<close>

theorem off_screen_zero_stride_counterexample:
  "no_overlap (snapped_box (tri (0, - 32) (16, - 32) (0, - 16))
                 \<lparr>r_shift = 4, ss_w_lg2 = 0, ss_i = 0\<rparr>) \<lparr>width = 64, height = 64\<rparr> \<and>
   valid (get_bounding_box (tri (0, - 32) (16, - 32) (0, - 16)) \<lparr>width = 64, height = 64\<rparr>
            \<lparr>r_shift = 4, ss_w_lg2 = 0, ss_i = 0\<rparr>) = False \<and>
   rasterize_triangle apart_frame (tri (0, - 32) (16, - 32) (0, - 16)) (None :: unit option)
      \<lparr>width = 64, height = 64\<rparr> \<lparr>r_shift = 4, ss_w_lg2 = 0, ss_i = 0\<rparr> = None"
proof -
  define bbox where "bbox = get_bounding_box (tri (0, - 32) (16, - 32) (0, - 16))
      \<lparr>width = 64, height = 64\<rparr> \<lparr>r_shift = 4, ss_w_lg2 = 0, ss_i = 0\<rparr>"
  have corners: "s_x (lower_left bbox) = 0" "s_y (lower_left bbox) = 0"
    "s_x (upper_right bbox) = 16" "s_y (upper_right bbox) = - 16"
    by (simp_all add: bbox_def get_bounding_box_corners snapped_box_corners floor_ss_eq
        min_c_def max_c_def tri_def vtx_def)
  have "loop_run apart_frame (tri (0, - 32) (16, - 32) (0, - 16)) (None :: unit option)
          \<lparr>r_shift = 4, ss_w_lg2 = 0, ss_i = 0\<rparr> bbox (entry bbox) = None"
    by (rule zero_stride_never) (simp_all add: corners)
  then have "rasterize_triangle apart_frame (tri (0, - 32) (16, - 32) (0, - 16))
      (None :: unit option) \<lparr>width = 64, height = 64\<rparr> \<lparr>r_shift = 4, ss_w_lg2 = 0, ss_i = 0\<rparr> = None"
    by (simp add: rasterize_triangle_def rasterize_run_def bbox_def)
  moreover have "no_overlap (snapped_box (tri (0, - 32) (16, - 32) (0, - 16))
                 \<lparr>r_shift = 4, ss_w_lg2 = 0, ss_i = 0\<rparr>) \<lparr>width = 64, height = 64\<rparr>"
    by (simp add: no_overlap_def snapped_box_corners floor_ss_eq min_c_def max_c_def
        tri_def vtx_def)
  moreover have "valid (get_bounding_box (tri (0, - 32) (16, - 32) (0, - 16))
      \<lparr>width = 64, height = 64\<rparr> \<lparr>r_shift = 4, ss_w_lg2 = 0, ss_i = 0\<rparr>) = False"
    by (simp add: valid_after_clip snapped_box_corners floor_ss_eq min_c_def max_c_def
        tri_def vtx_def)
  ultimately show ?thesis by simp
qed

section \<open>The calls of a run\<close>



section \<open>Runs on concrete inputs\<close>

lemma harmless_apart: "harmless apart_frame"
  by (simp add: harmless_def overrun_def apart_frame_def)

lemmas run_eval = hits_def is_hit_def box_samples_def range_c.simps
  get_bounding_box_corners snapped_box_corners floor_ss_eq min_c_def max_c_def
  jittered_by_def jitter_sample_def hash_40to8_def store_long_def load_arr40_def overrun_def
  apart_frame_def sample_test_def wrap32_def
  call_for_def flat_fragment_def c_div_def tri_def vtx_def Let_def upt_rec
  drop_bit_eq_div push_bit_eq_mult


lemmas ref_eval = reference_hit_count_def screen_grid_def covers_def cross2_def shifted_def
  inside_screen_def tri_def vtx_def Let_def upto.simps

section \<open>Delivered fragments\<close>



section \<open>Delivered coordinates\<close>





subsection \<open>Counters that wrap\<close>






section \<open>Runs without a buffer\<close>












section \<open>The hit count without jitter\<close>

lemma stride_bound:
  assumes "8 \<le> ss_w_lg2 config" and "ss_w_lg2 config \<le> r_shift config"
    and "r_shift config < 31"
    and "ss_i config = 2 ^ nat (r_shift config - ss_w_lg2 config)"
  shows "0 < ss_i config" and "ss_i config \<le> 4194304"
proof -
  show "0 < ss_i config" by (simp add: assms(4))
  have "nat (r_shift config - ss_w_lg2 config) \<le> 22" using assms(1-3) by simp
  then have "(2::int) ^ nat (r_shift config - ss_w_lg2 config) \<le> 2 ^ 22"
    by (intro power_increasing) simp_all
  then show "ss_i config \<le> 4194304" by (simp add: assms(4))
qed

text \<open>
  On a screen of at most \<open>32767\<close> by \<open>32767\<close> that holds the triangle, a sample of the box
  without jitter is a hit iff the exact edge test covers it.
\<close>

lemma is_hit_exact:
  assumes "8 \<le> ss_w_lg2 config" and "harmless fr" and "inside_screen t screen"
    and "width screen \<le> 32767" and "height screen \<le> 32767"
    and "0 \<le> s_x s" and "s_x s \<le> width screen" and "0 \<le> s_y s" and "s_y s \<le> height screen"
  shows "is_hit fr t config s = covers t s"
proof -
  have c: "c_int (s_x s)" "c_int (s_y s)"
    using assms(4-9) by (simp_all add: c_int_def)
  have "near t s"
    using assms(3-9) by (simp add: near_def inside_screen_def abs_le_iff)
  then show ?thesis
    by (simp add: is_hit_def jitter_sample_zero [OF assms(1,2)] jittered_by_zero [OF c]
        sample_test_exact)
qed

text \<open>
  Claim C2, as amended.  The jitter mask is \<^verbatim>\<open>0xff >> ss_w_lg2\<close>, so the jitter is \<open>0\<close> from
  \<open>ss_w_lg2 = 8\<close> on.  For a configuration with \<open>8 \<le> ss_w_lg2 \<le> r_shift < 31\<close> and
  \<open>ss_i = 2 ^ (r_shift - ss_w_lg2)\<close>, a screen of at most \<open>32767\<close> by \<open>32767\<close>, a triangle
  inside the screen and a frame in which the stores of \<^verbatim>\<open>jitter_sample\<close> do no harm, the
  jitter of every sample is \<open>0\<close>, the call returns, and its hit count is the count of the
  brute-force reference, which is the number of grid points that the exact edge test
  covers.
\<close>

theorem zero_jitter_hit_count:
  assumes "8 \<le> ss_w_lg2 config" and "ss_w_lg2 config \<le> r_shift config"
    and "r_shift config < 31"
    and "ss_i config = 2 ^ nat (r_shift config - ss_w_lg2 config)"
    and "inside_screen t screen"
    and "width screen \<le> 32767" and "height screen \<le> 32767"
    and "harmless fr"
  shows "jitter_sample fr s (ss_w_lg2 config) = Some \<lparr>s_x = 0, s_y = 0\<rparr> \<and>
         rasterize_triangle fr t z screen config = Some (reference_hit_count t screen config) \<and>
         reference_hit_count t screen config =
           int (card {p. ss_i config dvd s_x p \<and> ss_i config dvd s_y p \<and> covers t p})"
proof -
  have pos: "0 < ss_i config" and le: "ss_i config \<le> 4194304"
    using stride_bound [OF assms(1-4)] by simp_all
  have wf: "0 \<le> ss_w_lg2 config" "r_shift config < 32" using assms(1,3) by simp_all
  have wd: "width screen + ss_i config < 2 ^ 31" "height screen + ss_i config < 2 ^ 31"
    using le assms(6,7) by simp_all
  define bbox where "bbox = get_bounding_box t screen config"
  define bs where "bs = box_samples bbox (ss_i config)"
  have ur: "s_x (upper_right bbox) \<le> width screen" "s_y (upper_right bbox) \<le> height screen"
    unfolding bbox_def by (rule upper_right_on_screen)+
  have ll: "0 \<le> s_x (lower_left bbox)" "0 \<le> s_y (lower_left bbox)"
    unfolding bbox_def by (rule lower_left_nonneg)+
  have inb: "0 \<le> s_x p \<and> s_x p \<le> width screen \<and> 0 \<le> s_y p \<and> s_y p \<le> height screen"
    if "p \<in> set bs" for p
    using that ur ll by (auto simp: bs_def box_samples_set range_c_set [OF pos])
  have "hits fr t config bs = filter (covers t) bs"
    unfolding hits_def
    by (rule filter_cong [OF refl])
       (use inb in \<open>simp add: is_hit_exact [OF assms(1,8,5,6,7)]\<close>)
  then have "length (hits fr t config bs) = card {p \<in> set bs. covers t p}"
    by (simp add: count_distinct box_samples_distinct bs_def)
  also have "\<dots> = card {p \<in> set (screen_grid screen config). covers t p}"
    unfolding bs_def bbox_def
    by (simp only: box_hits_eq_screen_hits [OF wf(1) assms(2) wf(2) assms(4)])
  also have "\<dots> = length (filter (covers t) (screen_grid screen config))"
    by (simp add: count_distinct screen_grid_distinct [OF pos])
  finally have walk: "int (length (hits fr t config bs)) = reference_hit_count t screen config"
    by (simp add: reference_hit_count_def)
  have "nat (s_x (upper_right bbox) - s_x (lower_left bbox) + 1) \<le> 32768"
    "nat (s_y (upper_right bbox) - s_y (lower_left bbox) + 1) \<le> 32768"
    using ur ll assms(6,7) by linarith+
  then have "nat (s_x (upper_right bbox) - s_x (lower_left bbox) + 1) *
             nat (s_y (upper_right bbox) - s_y (lower_left bbox) + 1) \<le> 32768 * 32768"
    by (rule mult_le_mono)
  then have "length bs \<le> 32768 * 32768"
    unfolding bs_def using box_samples_length [of bbox "ss_i config"] by linarith
  moreover have "length (hits fr t config bs) \<le> length bs"
    by (simp add: hits_def)
  ultimately have "length (hits fr t config bs) \<le> 1073741824" by simp
  then have "c_int (int (length (hits fr t config bs)))"
    by (simp add: c_int_def)
  then have nowrap: "wrap32 (int (length (hits fr t config bs))) = int (length (hits fr t config bs))"
    by (rule wrap32_id)
  have count: "rasterize_triangle fr t z screen config = Some (reference_hit_count t screen config)"
    using rasterize_triangle_returns [OF assms(8) pos wd, of t z] nowrap walk
    by (simp add: bs_def bbox_def)
  have "{p \<in> set (screen_grid screen config). covers t p} =
        {p. ss_i config dvd s_x p \<and> ss_i config dvd s_y p \<and> covers t p}"
  proof (intro set_eqI iffI)
    fix p assume "p \<in> {p \<in> set (screen_grid screen config). covers t p}"
    then show "p \<in> {p. ss_i config dvd s_x p \<and> ss_i config dvd s_y p \<and> covers t p}"
      by (simp add: screen_grid_set [OF pos])
  next
    fix p assume "p \<in> {p. ss_i config dvd s_x p \<and> ss_i config dvd s_y p \<and> covers t p}"
    then have p: "ss_i config dvd s_x p" "ss_i config dvd s_y p" "covers t p" by simp_all
    have "0 \<le> s_x p \<and> s_x p \<le> width screen \<and> 0 \<le> s_y p \<and> s_y p \<le> height screen"
      using covers_in_box [OF p(3)] assms(5)
      by (auto simp: inside_screen_def min_c_def max_c_def split: if_splits)
    then show "p \<in> {p \<in> set (screen_grid screen config). covers t p}"
      using p by (simp add: screen_grid_set [OF pos])
  qed
  then have plane: "reference_hit_count t screen config =
      int (card {p. ss_i config dvd s_x p \<and> ss_i config dvd s_y p \<and> covers t p})"
    by (simp add: reference_hit_count_def count_distinct screen_grid_distinct [OF pos])
  show ?thesis
    using count plane by (simp add: jitter_sample_zero [OF assms(1,8)])
qed

theorem zero_jitter_hit_count_witness:
  "rasterize_triangle apart_frame (tri (0, 0) (0, 8) (8, 0)) (None :: unit option)
     \<lparr>width = 8, height = 8\<rparr> \<lparr>r_shift = 10, ss_w_lg2 = 8, ss_i = 4\<rparr> = Some 3"
proof -
  have ref: "reference_hit_count (tri (0, 0) (0, 8) (8, 0)) \<lparr>width = 8, height = 8\<rparr>
          \<lparr>r_shift = 10, ss_w_lg2 = 8, ss_i = 4\<rparr> = 3"
    by (simp add: ref_eval)
  have ins: "inside_screen (tri (0, 0) (0, 8) (8, 0)) \<lparr>width = 8, height = 8\<rparr>"
    by (simp add: ref_eval)
  have "rasterize_triangle apart_frame (tri (0, 0) (0, 8) (8, 0)) (None :: unit option)
             \<lparr>width = 8, height = 8\<rparr> \<lparr>r_shift = 10, ss_w_lg2 = 8, ss_i = 4\<rparr> =
        Some (reference_hit_count (tri (0, 0) (0, 8) (8, 0)) \<lparr>width = 8, height = 8\<rparr>
          \<lparr>r_shift = 10, ss_w_lg2 = 8, ss_i = 4\<rparr>)"
    by (rule conjunct1 [OF conjunct2 [OF zero_jitter_hit_count
            [of "\<lparr>r_shift = 10, ss_w_lg2 = 8, ss_i = 4\<rparr>" "tri (0, 0) (0, 8) (8, 0)"
                "\<lparr>width = 8, height = 8\<rparr>" apart_frame "\<lparr>s_x = 0, s_y = 0\<rparr>"
                "None :: unit option",
             OF _ _ _ _ ins _ _ harmless_apart]]])
      simp_all
  then show ?thesis by (simp only: ref)
qed

text \<open>
  The claim as stated takes \<open>ss_w_lg2 = 0\<close>.  There the mask is \<^verbatim>\<open>0xff\<close>: the sample
  \<open>(16, 16)\<close> has the jitter \<open>(1, 1)\<close> (with the arrays of \<^verbatim>\<open>jitter_sample\<close> apart).  The thin
  triangle \<open>(16,0), (16,32), (19,16)\<close> lies inside the \<open>32 \<times> 32\<close> screen and holds the grid
  points \<open>(16, 0)\<close> and \<open>(16, 16)\<close>; every sample of its box is moved out of it by the
  jitter, and the run counts no hit.
\<close>

theorem jitter_at_zero_counterexample:
  "inside_screen (tri (16, 0) (16, 32) (19, 16)) \<lparr>width = 32, height = 32\<rparr> \<and>
   jitter_sample apart_frame \<lparr>s_x = 16, s_y = 16\<rparr> 0 = Some \<lparr>s_x = 1, s_y = 1\<rparr> \<and>
   rasterize_triangle apart_frame (tri (16, 0) (16, 32) (19, 16)) (None :: unit option)
     \<lparr>width = 32, height = 32\<rparr> \<lparr>r_shift = 4, ss_w_lg2 = 0, ss_i = 16\<rparr> = Some 0 \<and>
   reference_hit_count (tri (16, 0) (16, 32) (19, 16)) \<lparr>width = 32, height = 32\<rparr>
     \<lparr>r_shift = 4, ss_w_lg2 = 0, ss_i = 16\<rparr> = 2"
proof (intro conjI)
  show "inside_screen (tri (16, 0) (16, 32) (19, 16)) \<lparr>width = 32, height = 32\<rparr>"
    by (simp add: ref_eval)
  show "jitter_sample apart_frame \<lparr>s_x = 16, s_y = 16\<rparr> 0 = Some \<lparr>s_x = 1, s_y = 1\<rparr>"
    by (simp add: run_eval)
  show "rasterize_triangle apart_frame (tri (16, 0) (16, 32) (19, 16)) (None :: unit option)
     \<lparr>width = 32, height = 32\<rparr> \<lparr>r_shift = 4, ss_w_lg2 = 0, ss_i = 16\<rparr> = Some 0"
    by (subst rasterize_triangle_returns [OF harmless_apart]) (simp_all add: run_eval)
  show "reference_hit_count (tri (16, 0) (16, 32) (19, 16)) \<lparr>width = 32, height = 32\<rparr>
     \<lparr>r_shift = 4, ss_w_lg2 = 0, ss_i = 16\<rparr> = 2"
    by (simp add: ref_eval)
qed


end
